theory Spec2Isabelle
  imports Complex_Main
begin

section \<open>Numeric model\<close>

text \<open>
  The feature extraction of \<open>src/feature_extraction.py\<close> works on NumPy arrays of
  64-bit floats. Array samples are modelled as real numbers, so sums and products are
  exact: rounding, overflow and non-finite input samples are not part of the model.
  The scalar operations that leave the finite numbers in NumPy without raising (logarithm
  of zero, division by zero, a fractional power or square root of a negative number)
  return a value of \<open>npfloat\<close>, which adds the two infinities and NaN to the reals.
  Exceptions are values of \<open>error\<close>; a computation that may raise returns
  \<open>error + 'a\<close>.

  Whether \<open>np.linalg.inv\<close> raises on a matrix that is singular in exact arithmetic
  depends on rounding (it raises only when the factorisation meets a pivot that is exactly
  zero), so that library call is a parameter of the model: \<open>feature_extraction\<close>
  takes the inversion routine as its first argument.
\<close>

datatype error = ValueError | IndexError | LinAlgError

datatype npfloat = Fin real | PInf | NInf | NaN

definition np_log :: "real \<Rightarrow> npfloat" where
  \<comment> \<open>\<open>np.log(x)\<close>: \<open>-inf\<close> at zero and \<open>nan\<close> below, each with a warning only.\<close>
  "np_log x = (if x < 0 then NaN else if x = 0 then NInf else Fin (ln x))"

definition np_power :: "real \<Rightarrow> real \<Rightarrow> npfloat" where
  \<comment> \<open>\<open>x ** p\<close> on a float scalar, for the exponents of the source (0.1, 0.5, 0.25):
      a negative base under a fractional exponent gives \<open>nan\<close> with a warning.\<close>
  "np_power x p = (if x < 0 then NaN else Fin (x powr p))"

definition np_divide :: "real \<Rightarrow> real \<Rightarrow> npfloat" where
  \<comment> \<open>\<open>x / y\<close> on float scalars: division by zero warns and gives \<open>nan\<close> or
      a signed infinity.\<close>
  "np_divide x y =
     (if y = 0 then (if x = 0 then NaN else if 0 < x then PInf else NInf)
      else Fin (x / y))"

definition np_sqrt :: "real \<Rightarrow> npfloat" where
  "np_sqrt x = (if x < 0 then NaN else Fin (sqrt x))"

fun np_var_scalar :: "npfloat \<Rightarrow> npfloat" where
  \<comment> \<open>\<open>np.var\<close> of a single number \<open>d\<close>: the mean of \<open>|d - mean d|\<^sup>2\<close> over one
      element, which is \<open>|d - d|\<^sup>2\<close>; \<open>inf - inf\<close> and \<open>nan - nan\<close> are \<open>nan\<close>.\<close>
  "np_var_scalar (Fin d) = Fin ((d - d) * (d - d))"
| "np_var_scalar PInf = NaN"
| "np_var_scalar NInf = NaN"
| "np_var_scalar NaN = NaN"

fun np_power_f :: "npfloat \<Rightarrow> real \<Rightarrow> npfloat" where
  \<comment> \<open>\<open>x ** p\<close> where \<open>x\<close> may already be non-finite (positive fractional \<open>p\<close>).\<close>
  "np_power_f (Fin x) p = np_power x p"
| "np_power_f PInf p = PInf"
| "np_power_f NInf p = PInf"
| "np_power_f NaN p = NaN"

definition np_sum :: "real list \<Rightarrow> real" where
  "np_sum xs = sum_list xs"

definition np_square :: "real list \<Rightarrow> real list" where
  "np_square xs = map (\<lambda>x. x * x) xs"

definition np_abs :: "real list \<Rightarrow> real list" where
  "np_abs xs = map abs xs"

definition np_mean :: "real list \<Rightarrow> real" where
  "np_mean xs = sum_list xs / real (length xs)"

definition first :: "'a list \<Rightarrow> error + 'a" where
  \<comment> \<open>Indexing \<open>xs[0]\<close>.\<close>
  "first xs = (case xs of [] \<Rightarrow> Inl IndexError | x # _ \<Rightarrow> Inr x)"

definition del_at :: "'a list \<Rightarrow> nat \<Rightarrow> error + 'a list" where
  \<comment> \<open>\<open>del xs[i]\<close> for a non-negative index.\<close>
  "del_at xs i = (if i < length xs then Inr (take i xs @ drop (Suc i) xs) else Inl IndexError)"

section \<open>Convolution and correlation\<close>

definition conv_at :: "real list \<Rightarrow> real list \<Rightarrow> nat \<Rightarrow> real" where
  \<comment> \<open>Sample \<open>n\<close> of the full discrete convolution: the sum of \<open>a[j] * v[n - j]\<close>
      over the indices where both exist.\<close>
  "conv_at a v n =
     (\<Sum>j\<leftarrow>[0..<length a]. if j \<le> n \<and> n - j < length v then a ! j * v ! (n - j) else 0)"

definition convolve :: "real list \<Rightarrow> real list \<Rightarrow> error + real list" where
  \<comment> \<open>\<open>np.convolve(a, v)\<close>, mode \<open>full\<close>: an empty argument raises ValueError.\<close>
  "convolve a v =
     (if a = [] \<or> v = [] then Inl ValueError
      else Inr (map (conv_at a v) [0..<length a + length v - 1]))"

definition correlate :: "real list \<Rightarrow> real list \<Rightarrow> error + real list" where
  \<comment> \<open>\<open>np.correlate(a, v)\<close>, mode \<open>valid\<close>: the lags at which the shorter series
      overlaps the longer one completely, in increasing lag \<open>k\<close> of
      \<open>c[k] = sum a[n + k] * v[n]\<close>. When \<open>a\<close> is the shorter series the lags are
      negative, so the first entry is the largest shift of \<open>v\<close>.\<close>
  "correlate a v =
     (if a = [] \<or> v = [] then Inl ValueError
      else if length v \<le> length a then
        Inr (map (\<lambda>k. \<Sum>n\<leftarrow>[0..<length v]. a ! (n + k) * v ! n)
                 [0..<length a - length v + 1])
      else
        Inr (map (\<lambda>k. \<Sum>n\<leftarrow>[0..<length a]. a ! n * v ! (n + k))
                 (rev [0..<length v - length a + 1])))"

section \<open>Windowed FIR design\<close>

definition sinc :: "real \<Rightarrow> real" where
  \<comment> \<open>\<open>np.sinc\<close>, the normalised sinc.\<close>
  "sinc x = (if x = 0 then 1 else sin (pi * x) / (pi * x))"

definition hamming :: "nat \<Rightarrow> real list" where
  \<comment> \<open>The symmetric Hamming window of \<open>M\<close> points
      (\<open>get_window('hamming', M, fftbins=False)\<close>).\<close>
  "hamming M =
     (if M \<le> 1 then replicate M 1
      else map (\<lambda>n. 0.54 - 0.46 * cos (2 * pi * real n / real (M - 1))) [0..<M])"

fun pairs :: "'a list \<Rightarrow> ('a \<times> 'a) list" where
  \<comment> \<open>\<open>reshape(-1, 2)\<close> of a list of even length.\<close>
  "pairs (a # b # xs) = (a, b) # pairs xs"
| "pairs _ = []"

definition firwin_bands :: "nat \<Rightarrow> real list \<Rightarrow> bool \<Rightarrow> real \<Rightarrow> error + (real \<times> real) list" where
  \<comment> \<open>The pass-bands \<open>scipy.signal.firwin\<close> designs for, as fractions of the Nyquist
      frequency: the cutoffs are the band edges, and \<open>pass_zero\<close> says whether the band
      from 0 to the first cutoff is a pass-band.\<close>
  "firwin_bands numtaps cutoff pass_zero fs =
     (let nyq = fs / 2;
          c = map (\<lambda>f. f / nyq) cutoff
      in if c = [] then Inl ValueError
         else if list_ex (\<lambda>x. x \<le> 0 \<or> 1 \<le> x) c then Inl ValueError
         else if \<not> sorted_wrt (<) c then Inl ValueError
         else
           (let pass_nyquist = (odd (length c) \<noteq> pass_zero)
            in if pass_nyquist \<and> even numtaps then Inl ValueError
               else Inr (pairs ((if pass_zero then [0] else []) @ c @
                                (if pass_nyquist then [1] else [])))))"

definition firwin :: "nat \<Rightarrow> real list \<Rightarrow> bool \<Rightarrow> real \<Rightarrow> error + real list" where
  \<comment> \<open>\<open>scipy.signal.firwin(numtaps, cutoff, pass_zero=..., fs=...)\<close> with the default
      Hamming window and scaling: the sum of the ideal responses of the pass-bands,
      windowed, then divided by its gain \<open>s\<close> at the scaling frequency of the first
      pass-band (for the designs of this program \<open>s\<close> is close to 1).\<close>
  "firwin numtaps cutoff pass_zero fs =
     (case firwin_bands numtaps cutoff pass_zero fs of
        Inl e \<Rightarrow> Inl e
      | Inr bands \<Rightarrow>
          (case bands of
             [] \<Rightarrow> Inl ValueError
           | (left, right) # _ \<Rightarrow>
               (let alpha = (real numtaps - 1) / 2;
                    m = map (\<lambda>n. real n - alpha) [0..<numtaps];
                    h = map (\<lambda>x. \<Sum>(l, r)\<leftarrow>bands. r * sinc (r * x) - l * sinc (l * x)) m;
                    hw = map2 (*) h (hamming numtaps);
                    scale_frequency =
                      (if left = 0 then 0 else if right = 1 then 1 else (left + right) / 2);
                    s = sum_list (map2 (\<lambda>x y. x * cos (pi * y * scale_frequency)) hw m)
                in Inr (map (\<lambda>x. x / s) hw))))"

section \<open>Multilevel wavelet decomposition\<close>

record wavelet =
  dec_lo :: "real list"
  dec_hi :: "real list"

definition db4 :: wavelet where
  \<comment> \<open>The decomposition filters of PyWavelets for \<open>'db4'\<close> (eight taps each).
      Releases of the library differ in these numbers from the eleventh digit on; the
      results below use only that there are eight taps and that \<open>dec_hi ! 4\<close> is
      not zero.\<close>
  "db4 = \<lparr>
     dec_lo = [-0.010597401784997278, 0.032883011666982945, 0.030841381835986965,
               -0.18703481171888114, -0.02798376941698385, 0.6308807679295904,
               0.7148465705525415, 0.23037781330885523],
     dec_hi = [-0.23037781330885523, 0.7148465705525415, -0.6308807679295904,
               -0.02798376941698385, 0.18703481171888114, 0.030841381835986965,
               -0.032883011666982945, -0.010597401784997278] \<rparr>"

datatype mode = MODE_SYMMETRIC | MODE_PERIODIZATION
  \<comment> \<open>The two signal extension modes modelled here, of the nine of PyWavelets:
      \<open>symmetric\<close> (integer code 1, the default) and \<open>periodization\<close>
      (integer code 5).\<close>

definition sym_index :: "nat \<Rightarrow> int \<Rightarrow> nat" where
  \<comment> \<open>Mode \<open>symmetric\<close>: the sample of a signal of length \<open>N\<close> that stands at
      position \<open>i\<close> of its half-sample symmetric extension
      \<open>... x1 x0 | x0 x1 ... | ...\<close>.\<close>
  "sym_index N i =
     (let j = nat (i mod (2 * int N)) in if j < N then j else 2 * N - 1 - j)"

definition per_index :: "nat \<Rightarrow> int \<Rightarrow> nat" where
  \<comment> \<open>Mode \<open>periodization\<close>: a signal of odd length is first extended by a copy of
      its last sample, then repeated periodically; the sample that stands at position
      \<open>i\<close>.\<close>
  "per_index N i =
     (let P = N + N mod 2; t = nat (i mod int P) in if t < N then t else N - 1)"

definition dwt_conv :: "mode \<Rightarrow> real list \<Rightarrow> real list \<Rightarrow> real list" where
  \<comment> \<open>Convolution of the extended signal with a decomposition filter, keeping every
      second sample. Mode \<open>symmetric\<close> gives \<open>(N + F - 1) div 2\<close> coefficients,
      mode \<open>periodization\<close> gives \<open>(N + 1) div 2\<close>, starting at position
      \<open>F div 2\<close>.\<close>
  "dwt_conv m filt x =
     (case m of
        MODE_SYMMETRIC \<Rightarrow>
          map (\<lambda>k. \<Sum>j\<leftarrow>[0..<length filt].
                      filt ! j * x ! sym_index (length x) (int (2 * k + 1) - int j))
              [0..<(length x + length filt - 1) div 2]
      | MODE_PERIODIZATION \<Rightarrow>
          map (\<lambda>k. \<Sum>j\<leftarrow>[0..<length filt].
                      filt ! j *
                      x ! per_index (length x) (int (length filt div 2 + 2 * k) - int j))
              [0..<(length x + 1) div 2])"

definition dwt :: "real list \<Rightarrow> wavelet \<Rightarrow> mode \<Rightarrow> error + (real list \<times> real list)" where
  \<comment> \<open>\<open>pywt.dwt\<close>: approximation and detail coefficients of one level.\<close>
  "dwt x w m =
     (if x = [] then Inl ValueError
      else Inr (dwt_conv m (dec_lo w) x, dwt_conv m (dec_hi w) x))"

fun size_log2 :: "nat \<Rightarrow> nat" where
  \<comment> \<open>The number of times a number can be halved before it reaches 0, less one: the
      integer part of the binary logarithm.\<close>
  "size_log2 n = (if n < 2 then 0 else Suc (size_log2 (n div 2)))"

declare size_log2.simps [simp del]

definition dwt_max_level :: "nat \<Rightarrow> nat \<Rightarrow> error + nat" where
  \<comment> \<open>\<open>pywt.dwt_max_level(data_len, filter_len)\<close>.\<close>
  "dwt_max_level data_len filter_len =
     (if filter_len < 2 then Inl ValueError
      else if data_len < filter_len - 1 then Inr 0
      else Inr (size_log2 (data_len div (filter_len - 1))))"

fun wavedec_loop ::
  "nat \<Rightarrow> wavelet \<Rightarrow> mode \<Rightarrow> real list \<Rightarrow> real list list \<Rightarrow> error + real list list" where
  \<comment> \<open>The loop of \<open>pywt.wavedec\<close> over the levels: each pass decomposes the current
      approximation and appends the detail; at the end the last approximation is
      appended and the list reversed.\<close>
  "wavedec_loop 0 w m a coeffs_list = Inr (rev (coeffs_list @ [a]))"
| "wavedec_loop (Suc n) w m a coeffs_list =
     (case dwt a w m of
        Inl e \<Rightarrow> Inl e
      | Inr (a', d) \<Rightarrow> wavedec_loop n w m a' (coeffs_list @ [d]))"

definition wavedec :: "real list \<Rightarrow> wavelet \<Rightarrow> mode \<Rightarrow> nat option \<Rightarrow> error + real list list" where
  \<comment> \<open>\<open>pywt.wavedec(data, wavelet, mode='symmetric', level=None)\<close>: without a level
      the decomposition goes to \<open>dwt_max_level\<close> of the data length; a given level
      above that maximum only warns.\<close>
  "wavedec data w m level =
     (case dwt_max_level (length data) (length (dec_lo w)) of
        Inl e \<Rightarrow> Inl e
      | Inr max_level \<Rightarrow>
          wavedec_loop (case level of None \<Rightarrow> max_level | Some l \<Rightarrow> l) w m data [])"

section \<open>Analytic signal and variance\<close>

definition fft :: "complex list \<Rightarrow> complex list" where
  "fft x =
     (let N = length x
      in map (\<lambda>k. \<Sum>n\<leftarrow>[0..<N]. x ! n * cis (- 2 * pi * real k * real n / real N)) [0..<N])"

definition ifft :: "complex list \<Rightarrow> complex list" where
  "ifft X =
     (let N = length X
      in map (\<lambda>n. (\<Sum>k\<leftarrow>[0..<N]. X ! k * cis (2 * pi * real k * real n / real N))
                   / of_nat N) [0..<N])"

definition hilbert :: "real list \<Rightarrow> error + complex list" where
  \<comment> \<open>\<open>scipy.signal.hilbert\<close>: the spectrum with the negative frequencies removed and
      the positive ones doubled, transformed back.\<close>
  "hilbert x =
     (let N = length x
      in if N = 0 then Inl ValueError
         else
           (let Xf = fft (map complex_of_real x);
                h = map (\<lambda>k. if even N
                              then (if k = 0 \<or> k = N div 2 then 1
                                    else if k < N div 2 then 2 else 0)
                              else (if k = 0 then 1
                                    else if k < (N + 1) div 2 then 2 else 0))
                        [0..<N]
            in Inr (ifft (map2 (*) Xf h))))"

definition np_var :: "complex list \<Rightarrow> real" where
  \<comment> \<open>\<open>np.var\<close> of a complex array: the mean of \<open>|z - mean z|\<^sup>2\<close>.\<close>
  "np_var z =
     (let mu = sum_list z / of_nat (length z)
      in sum_list (map (\<lambda>c. (cmod (c - mu))\<^sup>2) z) / real (length z))"

section \<open>Matrices\<close>

definition outer :: "real list \<Rightarrow> real list \<Rightarrow> real list list" where
  "outer u v = map (\<lambda>a. map (\<lambda>b. a * b) v) u"

definition eye :: "nat \<Rightarrow> real list list" where
  "eye n = map (\<lambda>i. map (\<lambda>j. if i = j then 1 else 0) [0..<n]) [0..<n]"

definition inv_contract :: "(real list list \<Rightarrow> error + real list list) \<Rightarrow> bool" where
  \<comment> \<open>What the model assumes of \<open>np.linalg.inv\<close>: it raises nothing but LinAlgError,
      and a matrix it returns has the shape of its square argument. Which of the two
      happens on a given matrix is left open.\<close>
  "inv_contract linalg_inv =
     (\<forall>A. case linalg_inv A of
            Inl e \<Rightarrow> e = LinAlgError
          | Inr B \<Rightarrow> length B = length A \<and> list_all (\<lambda>r. length r = length A) B)"

definition del_col :: "nat \<Rightarrow> real list \<Rightarrow> real list" where
  "del_col j row = take j row @ drop (Suc j) row"

fun det :: "real list list \<Rightarrow> real" where
  \<comment> \<open>Determinant of a square matrix, expanded along the first row.\<close>
  "det [] = 1"
| "det (r # rs) = (\<Sum>j\<leftarrow>[0..<length r]. (- 1) ^ j * r ! j * det (map (del_col j) rs))"

definition minor_mat :: "nat \<Rightarrow> nat \<Rightarrow> real list list \<Rightarrow> real list list" where
  "minor_mat i j A = map (del_col j) (take i A @ drop (Suc i) A)"

definition exact_inv :: "real list list \<Rightarrow> error + real list list" where
  \<comment> \<open>One inversion routine that meets the contract, the inversion in exact arithmetic:
      LinAlgError when the matrix is not square or its determinant is zero, and the
      inverse (cofactors over the determinant) otherwise.\<close>
  "exact_inv A =
     (let n = length A
      in if \<not> list_all (\<lambda>r. length r = n) A then Inl LinAlgError
         else if det A = 0 then Inl LinAlgError
         else Inr (map (\<lambda>i. map (\<lambda>j. (- 1) ^ (i + j) * det (minor_mat j i A) / det A)
                                 [0..<n]) [0..<n]))"

definition vecmat :: "real list \<Rightarrow> real list list \<Rightarrow> real list" where
  \<comment> \<open>\<open>np.dot\<close> of a vector and a square matrix.\<close>
  "vecmat x A = map (\<lambda>j. \<Sum>i\<leftarrow>[0..<length x]. x ! i * A ! i ! j) [0..<length x]"

definition dot :: "real list \<Rightarrow> real list \<Rightarrow> real" where
  "dot x y = sum_list (map2 (*) x y)"

definition mahalanobis :: "real list \<Rightarrow> real list \<Rightarrow> real list list \<Rightarrow> error + npfloat" where
  \<comment> \<open>\<open>scipy.spatial.distance.mahalanobis(u, v, VI)\<close>: the square root of
      \<open>(u - v) VI (u - v)\<^sup>T\<close>; mismatching shapes raise ValueError.\<close>
  "mahalanobis u v VI =
     (if length u \<noteq> length v then Inl ValueError
      else if length VI \<noteq> length u \<or> \<not> list_all (\<lambda>r. length r = length u) VI
        then Inl ValueError
      else (let delta = map2 (-) u v in Inr (np_sqrt (dot (vecmat delta VI) delta))))"

section \<open>The feature extraction\<close>

definition extract_log_sum_wavelets :: "real list \<Rightarrow> error + npfloat list" where
  \<comment> \<open>Lines 44 to 48. The call is \<open>pywt.wavedec(data, 'db4', 5)\<close>: the third
      positional parameter of \<open>wavedec\<close> is the mode, so the 5 selects mode
      \<open>periodization\<close> and the level, not given, is left to the library.\<close>
  "extract_log_sum_wavelets data =
     (case wavedec data db4 MODE_PERIODIZATION None of
        Inl e \<Rightarrow> Inl e
      | Inr coefficients \<Rightarrow>
          del_at (map (\<lambda>x. np_log (np_sum (np_abs x))) (drop 1 coefficients)) 1)"

definition extract_power :: "real list \<Rightarrow> real list \<Rightarrow> npfloat list" where
  \<comment> \<open>Lines 63 to 66.\<close>
  "extract_power data_bp1_30 data_bp3_12 =
     (let power1_30 = np_sum (np_square data_bp1_30);
          power3_12 = np_sum (np_square data_bp3_12)
      in [np_power power1_30 0.1, np_divide power3_12 power1_30])"

definition extract_correlate ::
  "real list \<Rightarrow> real list \<Rightarrow> real list \<Rightarrow> real list \<Rightarrow> error + npfloat list" where
  \<comment> \<open>Lines 83 and 84.\<close>
  "extract_correlate data data1 data_bp1_30 data_bp3_12 =
     (case correlate data data1 of
        Inl e \<Rightarrow> Inl e
      | Inr c \<Rightarrow>
     (case first c of
        Inl e \<Rightarrow> Inl e
      | Inr c0 \<Rightarrow>
     (case correlate data_bp1_30 data_bp3_12 of
        Inl e \<Rightarrow> Inl e
      | Inr cb \<Rightarrow>
     (case first cb of
        Inl e \<Rightarrow> Inl e
      | Inr cb0 \<Rightarrow> Inr [np_power c0 0.5, Fin (cb0\<^sup>2)]))))"

definition extract_phase :: "real list \<Rightarrow> error + npfloat" where
  \<comment> \<open>Line 97.\<close>
  "extract_phase data =
     (case hilbert (map (\<lambda>x. x - np_mean data) data) of
        Inl e \<Rightarrow> Inl e
      | Inr z \<Rightarrow> Inr (Fin (np_var z)))"

definition inv_cov_of ::
  "(real list list \<Rightarrow> error + real list list) \<Rightarrow> real list \<Rightarrow> real list \<Rightarrow>
     error + real list list" where
  \<comment> \<open>Lines 111 to 115: the inverse of the outer product, or the identity of the size of
      the first signal when the inversion raises LinAlgError.\<close>
  "inv_cov_of linalg_inv data_bp1_30 data_bp3_12 =
     (let cov_mat = outer data_bp1_30 data_bp3_12
      in case linalg_inv cov_mat of
           Inl e \<Rightarrow> (if e = LinAlgError then Inr (eye (length data_bp1_30)) else Inl e)
         | Inr inv_cov \<Rightarrow> Inr inv_cov)"

definition extract_mahalanobis ::
  "(real list list \<Rightarrow> error + real list list) \<Rightarrow> real list \<Rightarrow> real list \<Rightarrow>
     error + npfloat" where
  \<comment> \<open>Lines 111 to 118.\<close>
  "extract_mahalanobis linalg_inv data_bp1_30 data_bp3_12 =
     (case inv_cov_of linalg_inv data_bp1_30 data_bp3_12 of
        Inl e \<Rightarrow> Inl e
      | Inr inv_cov \<Rightarrow>
     (case mahalanobis data_bp1_30 data_bp3_12 inv_cov of
        Inl e \<Rightarrow> Inl e
      | Inr d \<Rightarrow> Inr (np_power_f (np_var_scalar d) 0.25)))"

definition band_signal :: "real list \<Rightarrow> real list \<Rightarrow> error + real list" where
  \<comment> \<open>\<open>np.convolve(data, signal.firwin(467, cutoff, fs=128))\<close>; \<open>firwin\<close> is called
      without \<open>pass_zero\<close>, whose default is true.\<close>
  "band_signal data cutoff =
     (case firwin 467 cutoff True 128 of
        Inl e \<Rightarrow> Inl e
      | Inr taps \<Rightarrow> convolve data taps)"

definition feature_extraction ::
  "(real list list \<Rightarrow> error + real list list) \<Rightarrow> real list \<Rightarrow> real list \<Rightarrow>
     error + npfloat list list" where
  \<comment> \<open>Lines 121 to 129; the operands of the list sum are evaluated left to right.\<close>
  "feature_extraction linalg_inv data data1 =
     (case band_signal data [1, 30] of
        Inl e \<Rightarrow> Inl e
      | Inr data_bp1_30 \<Rightarrow>
     (case band_signal data [3, 12] of
        Inl e \<Rightarrow> Inl e
      | Inr data_bp3_12 \<Rightarrow>
     (case extract_log_sum_wavelets data of
        Inl e \<Rightarrow> Inl e
      | Inr wavelet_feat \<Rightarrow>
     (case extract_correlate data data1 data_bp1_30 data_bp3_12 of
        Inl e \<Rightarrow> Inl e
      | Inr corr_feat \<Rightarrow>
     (case extract_phase data of
        Inl e \<Rightarrow> Inl e
      | Inr phase_feat \<Rightarrow>
     (case extract_mahalanobis linalg_inv data_bp1_30 data_bp3_12 of
        Inl e \<Rightarrow> Inl e
      | Inr dist_feat \<Rightarrow>
          Inr [wavelet_feat @ extract_power data_bp1_30 data_bp3_12 @ corr_feat @
               [phase_feat] @ [dist_feat]]))))))"

section \<open>The wavelet features as the specification words them\<close>

definition dwt_approx :: "real list \<Rightarrow> real list" where
  "dwt_approx x = dwt_conv MODE_PERIODIZATION (dec_lo db4) x"

definition dwt_detail :: "real list \<Rightarrow> real list" where
  "dwt_detail x = dwt_conv MODE_PERIODIZATION (dec_hi db4) x"

definition log_abs_sum :: "real list \<Rightarrow> npfloat" where
  "log_abs_sum c = np_log (sum_list (map abs c))"

definition spec_details :: "real list \<Rightarrow> real list list" where
  \<comment> \<open>The five detail sets of a 5-level decomposition, coarsest first: level \<open>j\<close> is the
      detail of the approximation of level \<open>j - 1\<close>.\<close>
  "spec_details data =
     (let a1 = dwt_approx data;
          a2 = dwt_approx a1;
          a3 = dwt_approx a2;
          a4 = dwt_approx a3
      in [dwt_detail a4, dwt_detail a3, dwt_detail a2, dwt_detail a1, dwt_detail data])"

definition spec_wavelet_features :: "real list \<Rightarrow> npfloat list" where
  \<comment> \<open>The logarithm of the absolute sum of each detail set, without the second value.\<close>
  "spec_wavelet_features data =
     (let logs = map log_abs_sum (spec_details data)
      in [logs ! 0, logs ! 2, logs ! 3, logs ! 4])"

section \<open>Results of the library calls\<close>

subsection \<open>Band signals\<close>

lemma firwin_bands_1_30: "firwin_bands 467 [1, 30] True 128 = Inr [(0, 1 / 64), (15 / 32, 1)]"
  by (simp add: firwin_bands_def)

lemma firwin_bands_3_12: "firwin_bands 467 [3, 12] True 128 = Inr [(0, 3 / 64), (3 / 16, 1)]"
  by (simp add: firwin_bands_def)

lemma length_hamming: "length (hamming M) = M"
  by (simp add: hamming_def)

lemma firwin_length: "firwin n c pz fs = Inr taps \<Longrightarrow> length taps = n"
  by (auto simp: firwin_def Let_def length_hamming split: sum.splits list.splits)

lemma firwin_1_30_ok: "\<exists>taps. firwin 467 [1, 30] True 128 = Inr taps \<and> length taps = 467"
  using firwin_length[of 467 "[1, 30]" True 128]
  by (simp add: firwin_def firwin_bands_1_30 Let_def)

lemma firwin_3_12_ok: "\<exists>taps. firwin 467 [3, 12] True 128 = Inr taps \<and> length taps = 467"
  using firwin_length[of 467 "[3, 12]" True 128]
  by (simp add: firwin_def firwin_bands_3_12 Let_def)

lemma convolve_ok:
  "a \<noteq> [] \<Longrightarrow> v \<noteq> [] \<Longrightarrow> convolve a v = Inr (map (conv_at a v) [0..<length a + length v - 1])"
  by (simp add: convolve_def)

lemma band_signal_ok:
  assumes "data \<noteq> []" and "c = [1, 30] \<or> c = [3, 12]"
  shows "\<exists>taps. firwin 467 c True 128 = Inr taps \<and> length taps = 467 \<and>
           band_signal data c = Inr (map (conv_at data taps) [0..<length data + 466])"
proof -
  from assms(2) firwin_1_30_ok firwin_3_12_ok
  obtain taps where t: "firwin 467 c True 128 = Inr taps" "length taps = 467"
    by auto
  then have "taps \<noteq> []" by auto
  with assms(1) have "convolve data taps =
      Inr (map (conv_at data taps) [0..<length data + length taps - 1])"
    by (rule convolve_ok)
  moreover have "length data + length taps - 1 = length data + 466"
    using t(2) by simp
  ultimately have "convolve data taps = Inr (map (conv_at data taps) [0..<length data + 466])"
    by (simp only:)
  with t show ?thesis
    by (simp add: band_signal_def)
qed

lemma band_signals_ok:
  assumes "data \<noteq> []"
  shows "\<exists>bp1 bp2. band_signal data [1, 30] = Inr bp1 \<and> band_signal data [3, 12] = Inr bp2 \<and>
           length bp1 = length data + 466 \<and> length bp2 = length data + 466"
proof -
  from band_signal_ok[OF assms, of "[1, 30]"] obtain t1 where
    "band_signal data [1, 30] = Inr (map (conv_at data t1) [0..<length data + 466])"
    by auto
  moreover from band_signal_ok[OF assms, of "[3, 12]"] obtain t2 where
    "band_signal data [3, 12] = Inr (map (conv_at data t2) [0..<length data + 466])"
    by auto
  ultimately show ?thesis by simp
qed

subsection \<open>Wavelet decomposition\<close>

lemma db4_lengths: "length (dec_lo db4) = 8" "length (dec_hi db4) = 8"
  by (simp_all add: db4_def)

lemma length_dwt_approx: "length (dwt_approx x) = (length x + 1) div 2"
  by (simp add: dwt_approx_def dwt_conv_def)

lemma length_dwt_detail: "length (dwt_detail x) = (length x + 1) div 2"
  by (simp add: dwt_detail_def dwt_conv_def)

lemma dwt_approx_nonempty: "x \<noteq> [] \<Longrightarrow> dwt_approx x \<noteq> []"
proof -
  assume "x \<noteq> []"
  then have "0 < length x" by simp
  then have "0 < (length x + 1) div 2" by arith
  then show ?thesis using length_dwt_approx[of x] by auto
qed

lemma dwt_db4: 
  "x \<noteq> [] \<Longrightarrow> dwt x db4 MODE_PERIODIZATION = Inr (dwt_approx x, dwt_detail x)"
  by (simp add: dwt_def dwt_approx_def dwt_detail_def)

lemma size_log2_bounds: "2 ^ k \<le> n \<Longrightarrow> n < 2 ^ Suc k \<Longrightarrow> size_log2 n = k"
proof (induction k arbitrary: n)
  case 0
  then show ?case by (simp add: size_log2.simps)
next
  case (Suc k)
  from Suc.prems have "2 ^ k \<le> n div 2" "n div 2 < 2 ^ Suc k"
    by auto
  then have "size_log2 (n div 2) = k"
    by (rule Suc.IH)
  moreover have "(2::nat) \<le> 2 ^ Suc k"
    by simp
  with Suc.prems(1) have "\<not> n < 2"
    by linarith
  ultimately show ?case
    by (subst size_log2.simps) simp
qed

lemma dwt_max_level_epoch:
  assumes "224 \<le> n" and "n \<le> 447"
  shows "dwt_max_level n 8 = Inr 5"
proof -
  from assms have "32 \<le> n div 7" "n div 7 < 64"
    by arith+
  then have "2 ^ 5 \<le> n div 7" "n div 7 < 2 ^ Suc 5"
    by simp_all
  then have "size_log2 (n div 7) = 5"
    by (rule size_log2_bounds)
  with assms show ?thesis
    by (simp add: dwt_max_level_def)
qed

lemma wavedec_db4:
  assumes "224 \<le> length data" and "length data \<le> 447"
  shows "wavedec data db4 MODE_PERIODIZATION None =
           Inr (dwt_approx (dwt_approx (dwt_approx (dwt_approx (dwt_approx data)))) #
                spec_details data)"
proof -
  have five: "(5::nat) = Suc (Suc (Suc (Suc (Suc 0))))" by simp
  from assms(1) have ne: "data \<noteq> []" by auto
  note nes = ne dwt_approx_nonempty
  show ?thesis
    unfolding wavedec_def db4_lengths dwt_max_level_epoch[OF assms]
    by (simp add: five dwt_db4 nes spec_details_def Let_def)
qed

lemma length_spec_details: "length (spec_details data) = 5"
  by (simp add: spec_details_def Let_def)

lemma extract_log_sum_wavelets_ok:
  assumes "224 \<le> length data" and "length data \<le> 447"
  shows "extract_log_sum_wavelets data = Inr (spec_wavelet_features data)"
proof -
  obtain d5 d4 d3 d2 d1 where d: "spec_details data = [d5, d4, d3, d2, d1]"
    by (simp add: spec_details_def Let_def)
  show ?thesis
    by (simp add: extract_log_sum_wavelets_def wavedec_db4[OF assms] d del_at_def
        spec_wavelet_features_def log_abs_sum_def np_sum_def np_abs_def)
qed

lemma length_spec_wavelet_features: "length (spec_wavelet_features data) = 4"
  by (simp add: spec_wavelet_features_def Let_def)

subsection \<open>Correlation\<close>

lemma correlate_ok:
  assumes "a \<noteq> []" "v \<noteq> []"
  shows "\<exists>c cs. correlate a v = Inr (c # cs)"
proof (cases "length v \<le> length a")
  case True
  have "[0..<length a - length v + 1] = 0 # [1..<length a - length v + 1]"
    by (simp add: upt_rec)
  with True assms show ?thesis by (simp add: correlate_def)
next
  case False
  have "rev [0..<length v - length a + 1] = (length v - length a) # rev [0..<length v - length a]"
    by simp
  with False assms show ?thesis by (simp add: correlate_def)
qed

lemma correlate_same_length:
  assumes "a \<noteq> []" "length v = length a"
  shows "correlate a v = Inr [\<Sum>n\<leftarrow>[0..<length a]. a ! n * v ! n]"
  using assms by (auto simp: correlate_def)

lemma extract_correlate_ok:
  assumes "data \<noteq> []" "data1 \<noteq> []" "bp1 \<noteq> []" "length bp2 = length bp1"
  shows "\<exists>c cs. correlate data data1 = Inr (c # cs) \<and>
           extract_correlate data data1 bp1 bp2 =
             Inr [np_power c 0.5, Fin ((\<Sum>n\<leftarrow>[0..<length bp1]. bp1 ! n * bp2 ! n)\<^sup>2)]"
proof -
  from correlate_ok[OF assms(1,2)] obtain c cs where c: "correlate data data1 = Inr (c # cs)"
    by blast
  with correlate_same_length[OF assms(3,4)] show ?thesis
    by (simp add: extract_correlate_def first_def)
qed

subsection \<open>Phase\<close>

lemma extract_phase_ok: "data \<noteq> [] \<Longrightarrow> \<exists>p. extract_phase data = Inr (Fin p)"
  by (simp add: extract_phase_def hilbert_def Let_def)

subsection \<open>Inversion and distance\<close>

lemma del_col_outer: "map (del_col j) (outer u v) = outer u (del_col j v)"
  by (simp add: outer_def del_col_def take_map drop_map)

lemma length_del_col: "j < length v \<Longrightarrow> length (del_col j v) = length v - 1"
  by (auto simp: del_col_def)

lemma outer_Cons: "outer (a # u) v = map (\<lambda>b. a * b) v # outer u v"
  by (simp add: outer_def)

lemma det_outer_2: "det (outer [a, b] [c, d]) = 0"
  by (simp add: outer_def del_col_def upt_rec)

lemma det_outer_zero:
  "2 \<le> length u \<Longrightarrow> length v = length u \<Longrightarrow> det (outer u v) = 0"
proof (induction u arbitrary: v)
  case Nil
  then show ?case by simp
next
  case (Cons a u)
  show ?case
  proof (cases "2 \<le> length u")
    case True
    have "det (map (del_col j) (outer u v)) = 0" if "j < length v" for j
    proof -
      have "length (del_col j v) = length u"
        using that Cons.prems(2) by (simp add: length_del_col)
      with True show ?thesis
        by (simp add: del_col_outer Cons.IH)
    qed
    then have "map (\<lambda>j. (- 1) ^ j * map (\<lambda>b. a * b) v ! j *
                 det (map (del_col j) (outer u v))) [0..<length v]
             = map (\<lambda>j. 0) [0..<length v]"
      by (intro map_cong) auto
    then have "(\<Sum>j\<leftarrow>[0..<length v]. (- 1) ^ j * map (\<lambda>b. a * b) v ! j *
                 det (map (del_col j) (outer u v))) = 0"
      by (simp only: sum_list_0)
    then show ?thesis
      by (simp add: outer_Cons)
  next
    case False
    with Cons.prems have "length u = Suc 0"
      by simp
    then obtain b where u: "u = [b]"
      by (auto simp: length_Suc_conv)
    with Cons.prems have "length v = Suc (Suc 0)"
      by simp
    then obtain c d where v: "v = [c, d]"
      by (auto simp: length_Suc_conv)
    show ?thesis
      unfolding u v by (rule det_outer_2)
  qed
qed

lemma length_outer: "length (outer u v) = length u"
  by (simp add: outer_def)

lemma exact_inv_outer:
  assumes "2 \<le> length u" "length v = length u"
  shows "exact_inv (outer u v) = Inl LinAlgError"
  using det_outer_zero[OF assms] by (simp add: exact_inv_def Let_def)

lemma exact_inv_contract: "inv_contract exact_inv"
  by (auto simp: inv_contract_def exact_inv_def Let_def list_all_iff split: sum.splits)

lemma inv_contract_error: "inv_contract f \<Longrightarrow> f A = Inl e \<Longrightarrow> e = LinAlgError"
  unfolding inv_contract_def by (drule spec[of _ A]) simp

lemma inv_contract_shape:
  "inv_contract f \<Longrightarrow> f A = Inr B \<Longrightarrow>
     length B = length A \<and> list_all (\<lambda>r. length r = length A) B"
  unfolding inv_contract_def by (drule spec[of _ A]) simp

lemma eye_shape: "length (eye n) = n \<and> list_all (\<lambda>r. length r = n) (eye n)"
  by (simp add: eye_def list_all_iff)

lemma inv_cov_of_shape:
  assumes "inv_contract f"
  shows "\<exists>VI. inv_cov_of f u v = Inr VI \<and> length VI = length u \<and>
        list_all (\<lambda>r. length r = length u) VI"
proof (cases "f (outer u v)")
  case (Inl e)
  with assms have "e = LinAlgError" by (rule inv_contract_error)
  with Inl show ?thesis
    by (simp add: inv_cov_of_def eye_shape)
next
  case (Inr B)
  from inv_contract_shape[OF assms Inr] Inr show ?thesis
    by (simp add: inv_cov_of_def length_outer)
qed

lemma inv_cov_of_fallback:
  "f (outer u v) = Inl LinAlgError \<Longrightarrow> inv_cov_of f u v = Inr (eye (length u))"
  by (simp add: inv_cov_of_def)

lemma inv_cov_of_inverse:
  "f (outer u v) = Inr B \<Longrightarrow> inv_cov_of f u v = Inr B"
  by (simp add: inv_cov_of_def)

lemma mahalanobis_ok:
  assumes "length v = length u" "length VI = length u"
    "list_all (\<lambda>r. length r = length u) VI"
  shows "mahalanobis u v VI = Inr (np_sqrt (dot (vecmat (map2 (-) u v) VI) (map2 (-) u v)))"
  using assms by (simp add: mahalanobis_def Let_def)

lemma vecmat_eye: "vecmat x (eye (length x)) = x"
proof -
  have "(\<Sum>i\<leftarrow>[0..<length x]. x ! i * eye (length x) ! i ! j) = x ! j" if "j < length x" for j
  proof -
    have "(\<Sum>i\<leftarrow>[0..<length x]. x ! i * eye (length x) ! i ! j)
        = (\<Sum>i\<leftarrow>[0..<length x]. if i = j then x ! j else 0)"
      using that by (intro arg_cong[where f = sum_list] map_cong) (auto simp: eye_def)
    also have "\<dots> = (\<Sum>i = 0..<length x. if i = j then x ! j else 0)"
      by (simp add: interv_sum_list_conv_sum_set_nat)
    also have "\<dots> = x ! j"
      using that by simp
    finally show ?thesis .
  qed
  then have "vecmat x (eye (length x)) = map (\<lambda>j. x ! j) [0..<length x]"
    unfolding vecmat_def by (intro map_cong) auto
  then show ?thesis
    by (simp add: map_nth)
qed

lemma dot_self_nonneg: "0 \<le> dot x x"
  by (induction x) (auto simp: dot_def)

lemma mahalanobis_eye:
  assumes "length v = length u"
  shows "mahalanobis u v (eye (length u)) = Inr (Fin (sqrt (dot (map2 (-) u v) (map2 (-) u v))))"
proof -
  have len: "length (map2 (-) u v) = length u"
    using assms by simp
  have "mahalanobis u v (eye (length u)) =
        Inr (np_sqrt (dot (vecmat (map2 (-) u v) (eye (length u))) (map2 (-) u v)))"
    using assms eye_shape[of "length u"] by (intro mahalanobis_ok) auto
  also have "vecmat (map2 (-) u v) (eye (length u)) = map2 (-) u v"
    using vecmat_eye[of "map2 (-) u v"] len by simp
  finally show ?thesis
    using dot_self_nonneg[of "map2 (-) u v"] by (simp add: np_sqrt_def)
qed

lemma extract_mahalanobis_eq:
  assumes "inv_cov_of f u v = Inr VI" and "mahalanobis u v VI = Inr mdist"
  shows "extract_mahalanobis f u v = Inr (np_power_f (np_var_scalar mdist) 0.25)"
  using assms by (simp add: extract_mahalanobis_def)

lemma extract_mahalanobis_ok:
  assumes "inv_contract f" and "length v = length u"
  shows "\<exists>VI mdist. inv_cov_of f u v = Inr VI \<and> mahalanobis u v VI = Inr mdist \<and>
           extract_mahalanobis f u v = Inr (np_power_f (np_var_scalar mdist) 0.25)"
proof -
  from inv_cov_of_shape[OF assms(1), of u v] obtain VI where
    VI: "inv_cov_of f u v = Inr VI" "length VI = length u"
        "list_all (\<lambda>r. length r = length u) VI"
    by blast
  from mahalanobis_ok[OF assms(2) VI(2,3)] VI(1) show ?thesis
    by (simp add: extract_mahalanobis_def)
qed

lemma distance_feature_cases:
  "np_power_f (np_var_scalar (Fin d)) 0.25 = Fin 0"
  "np_power_f (np_var_scalar NaN) 0.25 = NaN"
  "np_power_f (np_var_scalar PInf) 0.25 = NaN"
  "np_power_f (np_var_scalar NInf) 0.25 = NaN"
  by (simp_all add: np_power_def)

subsection \<open>The feature vector\<close>

lemma length_extract_power: "length (extract_power u v) = 2"
  by (simp add: extract_power_def Let_def)

lemma feature_extraction_eq:
  assumes "band_signal data [1, 30] = Inr bp1"
    and "band_signal data [3, 12] = Inr bp2"
    and "extract_log_sum_wavelets data = Inr wfeat"
    and "extract_correlate data data1 bp1 bp2 = Inr cf"
    and "extract_phase data = Inr ph"
    and "extract_mahalanobis f bp1 bp2 = Inr d"
  shows "feature_extraction f data data1 = Inr [wfeat @ extract_power bp1 bp2 @ cf @ [ph] @ [d]]"
  by (simp add: feature_extraction_def assms)

lemma feature_extraction_ok:
  assumes "inv_contract f" and "224 \<le> length data" and "length data \<le> 447"
    and "data1 \<noteq> []"
  obtains bp1 bp2 c cs ph VI mdist where
    "band_signal data [1, 30] = Inr bp1" and "band_signal data [3, 12] = Inr bp2"
    and "length bp1 = length data + 466" and "length bp2 = length data + 466"
    and "correlate data data1 = Inr (c # cs)"
    and "extract_phase data = Inr (Fin ph)"
    and "inv_cov_of f bp1 bp2 = Inr VI" and "mahalanobis bp1 bp2 VI = Inr mdist"
    and "extract_mahalanobis f bp1 bp2 = Inr (np_power_f (np_var_scalar mdist) 0.25)"
    and "feature_extraction f data data1 =
           Inr [spec_wavelet_features data @ extract_power bp1 bp2 @
                [np_power c 0.5, Fin ((\<Sum>n\<leftarrow>[0..<length bp1]. bp1 ! n * bp2 ! n)\<^sup>2)] @
                [Fin ph] @ [np_power_f (np_var_scalar mdist) 0.25]]"
proof -
  from assms(2) have ne: "data \<noteq> []"
    by auto
  from band_signals_ok[OF ne] obtain bp1 bp2 where
    bp: "band_signal data [1, 30] = Inr bp1" "band_signal data [3, 12] = Inr bp2"
        "length bp1 = length data + 466" "length bp2 = length data + 466"
    by blast
  then have bne: "bp1 \<noteq> []" and eq: "length bp2 = length bp1"
    by auto
  from extract_correlate_ok[OF ne assms(4) bne eq] obtain c cs where
    c: "correlate data data1 = Inr (c # cs)"
       "extract_correlate data data1 bp1 bp2 =
          Inr [np_power c 0.5, Fin ((\<Sum>n\<leftarrow>[0..<length bp1]. bp1 ! n * bp2 ! n)\<^sup>2)]"
    by blast
  from extract_phase_ok[OF ne] obtain ph where ph: "extract_phase data = Inr (Fin ph)"
    by blast
  from extract_mahalanobis_ok[OF assms(1) eq] obtain VI mdist where
    m: "inv_cov_of f bp1 bp2 = Inr VI" "mahalanobis bp1 bp2 VI = Inr mdist"
       "extract_mahalanobis f bp1 bp2 = Inr (np_power_f (np_var_scalar mdist) 0.25)"
    by blast
  show thesis
    by (rule that[OF bp c(1) ph m
          feature_extraction_eq[OF bp(1,2) extract_log_sum_wavelets_ok[OF assms(2,3)] c(2) ph m(3)]])
qed

subsection \<open>Positions in the feature row\<close>

lemma feature_row_nth:
  assumes "length w = 4" and "length p = 2"
  shows "(w @ p @ [c0, c1] @ [ph] @ [d]) ! 4 = p ! 0"
    and "(w @ p @ [c0, c1] @ [ph] @ [d]) ! 5 = p ! 1"
    and "(w @ p @ [c0, c1] @ [ph] @ [d]) ! 6 = c0"
    and "(w @ p @ [c0, c1] @ [ph] @ [d]) ! 7 = c1"
    and "(w @ p @ [c0, c1] @ [ph] @ [d]) ! 8 = ph"
    and "(w @ p @ [c0, c1] @ [ph] @ [d]) ! 9 = d"
    and "length (w @ p @ [c0, c1] @ [ph] @ [d]) = 10"
  using assms by (simp_all add: nth_append)

lemma feature_row_nth_wavelet:
  assumes "length w = 4" and "i < 4"
  shows "(w @ rest) ! i = w ! i"
  using assms by (simp add: nth_append)

lemma feature_row_update:
  assumes "length w = 4" and "length p = 2"
  shows "w @ p @ [c0', c1] @ t = (w @ p @ [c0, c1] @ t)[6 := c0']"
  using assms by (simp add: list_update_append)

lemma sum_list_nth_sq: "(\<Sum>n\<leftarrow>[0..<length xs]. xs ! n * xs ! n) = (\<Sum>x\<leftarrow>xs. x\<^sup>2)"
  for xs :: "real list"
proof -
  have "map (\<lambda>n. xs ! n * xs ! n) [0..<length xs] = map (\<lambda>x. x\<^sup>2) xs"
    by (rule nth_equalityI) (simp_all add: power2_eq_square)
  then show ?thesis by simp
qed

lemma sum_list_sq_nonneg: "0 \<le> (\<Sum>x\<leftarrow>xs. x\<^sup>2)" for xs :: "real list"
  by (induction xs) auto

lemma np_power_half: "0 \<le> x \<Longrightarrow> np_power x 0.5 = Fin (sqrt x)"
  by (simp add: np_power_def powr_half_sqrt)

subsection \<open>Scaling an epoch\<close>

lemma conv_at_scale: "conv_at (map (\<lambda>x. k * x) a) v n = k * conv_at a v n"
proof -
  have "map (\<lambda>j. if j \<le> n \<and> n - j < length v then map (\<lambda>x. k * x) a ! j * v ! (n - j) else 0)
          [0..<length a]
      = map (\<lambda>j. k * (if j \<le> n \<and> n - j < length v then a ! j * v ! (n - j) else 0))
          [0..<length a]"
    by (rule map_cong) auto
  then show ?thesis
    unfolding conv_at_def by (simp only: length_map sum_list_const_mult)
qed

lemma band_signal_scale:
  assumes "band_signal data c = Inr bp"
  shows "band_signal (map (\<lambda>x. k * x) data) c = Inr (map (\<lambda>x. k * x) bp)"
proof -
  from assms obtain taps where t: "firwin 467 c True 128 = Inr taps"
    by (auto simp: band_signal_def split: sum.splits)
  with assms have conv: "convolve data taps = Inr bp"
    by (simp add: band_signal_def)
  then have ne: "data \<noteq> []" "taps \<noteq> []"
    by (auto simp: convolve_def split: if_splits)
  with conv have bp: "bp = map (conv_at data taps) [0..<length data + length taps - 1]"
    by (simp add: convolve_def)
  have "convolve (map (\<lambda>x. k * x) data) taps = Inr (map (\<lambda>x. k * x) bp)"
    using ne by (simp add: convolve_def bp conv_at_scale)
  with t show ?thesis
    by (simp add: band_signal_def)
qed

lemma power_scale: "np_sum (np_square (map (\<lambda>x. k * x) xs)) = k\<^sup>2 * np_sum (np_square xs)"
proof -
  have "map (\<lambda>x. x * x) (map (\<lambda>x. k * x) xs) = map (\<lambda>x. k\<^sup>2 * (x * x)) xs"
    by (simp add: power2_eq_square algebra_simps)
  then show ?thesis
    unfolding np_sum_def np_square_def by (simp only: sum_list_const_mult)
qed

lemma power_nonneg: "0 \<le> np_sum (np_square xs)"
  by (induction xs) (auto simp: np_sum_def np_square_def)

lemma powr_scale:
  fixes k P :: real
  assumes "0 < k" and "0 \<le> P"
  shows "(k\<^sup>2 * P) powr (1 / 10) = k powr (1 / 5) * P powr (1 / 10)"
proof -
  have "(k\<^sup>2 * P) powr (1 / 10) = (k\<^sup>2) powr (1 / 10) * P powr (1 / 10)"
    using assms by (simp add: powr_mult)
  also have "(k\<^sup>2) powr (1 / 10) = (k powr 2) powr (1 / 10)"
    using assms by simp
  also have "\<dots> = k powr (1 / 5)"
    by (simp add: powr_powr)
  finally show ?thesis .
qed

lemma np_divide_scale:
  assumes "s \<noteq> 0" and "0 \<le> x"
  shows "np_divide (s\<^sup>2 * x) (s\<^sup>2 * y) = np_divide x y"
proof -
  have "0 < s\<^sup>2" using assms(1) by simp
  then have "0 < s\<^sup>2 * x \<longleftrightarrow> 0 < x"
    by (simp add: zero_less_mult_iff)
  with assms(1) show ?thesis
    by (simp add: np_divide_def)
qed

lemma extract_power_scale:
  assumes "0 < k"
  shows "extract_power (map (\<lambda>x. k * x) u) (map (\<lambda>x. k * x) v) =
           [Fin (k powr (1 / 5) * np_sum (np_square u) powr (1 / 10)),
            np_divide (np_sum (np_square v)) (np_sum (np_square u))]"
proof -
  have "k \<noteq> 0" using assms by simp
  from np_divide_scale[OF this power_nonneg, of v "np_sum (np_square u)"]
    powr_scale[OF assms power_nonneg, of u] power_nonneg[of u] assms
  show ?thesis
    by (simp add: extract_power_def Let_def power_scale np_power_def not_less)
qed

lemma extract_power_eq:
  "extract_power u v =
     [Fin (np_sum (np_square u) powr (1 / 10)),
      np_divide (np_sum (np_square v)) (np_sum (np_square u))]"
  using power_nonneg[of u] by (simp add: extract_power_def Let_def np_power_def not_less)

subsection \<open>Scaling and the wavelet decomposition\<close>

lemma per_index_less: "0 < N \<Longrightarrow> per_index N i < N"
  by (auto simp: per_index_def Let_def)

lemma dwt_conv_scale:
  assumes "x \<noteq> []"
  shows "dwt_conv MODE_PERIODIZATION filt (map (\<lambda>x. k * x) x) =
           map (\<lambda>y. k * y) (dwt_conv MODE_PERIODIZATION filt x)"
proof -
  from assms have N: "0 < length x" by simp
  have "(\<Sum>j\<leftarrow>[0..<length filt]. filt ! j * map (\<lambda>x. k * x) x ! per_index (length x) (int (length filt div 2 + 2 * n) - int j))
      = k * (\<Sum>j\<leftarrow>[0..<length filt]. filt ! j * x ! per_index (length x) (int (length filt div 2 + 2 * n) - int j))"
    for n
  proof -
    have "map (\<lambda>j. filt ! j * map (\<lambda>x. k * x) x ! per_index (length x) (int (length filt div 2 + 2 * n) - int j))
            [0..<length filt]
        = map (\<lambda>j. k * (filt ! j * x ! per_index (length x) (int (length filt div 2 + 2 * n) - int j)))
            [0..<length filt]"
      by (rule map_cong) (simp_all add: per_index_less[OF N])
    then show ?thesis
      by (simp only: sum_list_const_mult)
  qed
  then show ?thesis
    by (simp add: dwt_conv_def)
qed

lemma dwt_approx_scale:
  "x \<noteq> [] \<Longrightarrow> dwt_approx (map (\<lambda>x. k * x) x) = map (\<lambda>y. k * y) (dwt_approx x)"
  by (simp add: dwt_approx_def dwt_conv_scale)

lemma dwt_detail_scale:
  "x \<noteq> [] \<Longrightarrow> dwt_detail (map (\<lambda>x. k * x) x) = map (\<lambda>y. k * y) (dwt_detail x)"
  by (simp add: dwt_detail_def dwt_conv_scale)

lemma spec_details_scale:
  assumes "data \<noteq> []"
  shows "spec_details (map (\<lambda>x. k * x) data) = map (map (\<lambda>y. k * y)) (spec_details data)"
proof -
  note ne = assms dwt_approx_nonempty
  show ?thesis
    by (simp add: spec_details_def Let_def dwt_approx_scale dwt_detail_scale ne)
qed

lemma abs_sum_scale:
  fixes c :: "real list"
  assumes "0 < k"
  shows "sum_list (map abs (map (\<lambda>y. k * y) c)) = k * sum_list (map abs c)"
proof -
  have "map abs (map (\<lambda>y. k * y) c) = map (\<lambda>y. k * \<bar>y\<bar>) c"
    using assms by (simp add: abs_mult)
  then show ?thesis
    by (simp only: sum_list_const_mult)
qed

lemma log_abs_sum_scale:
  assumes "0 < k" and "0 < sum_list (map abs c)"
  shows "log_abs_sum c = Fin (ln (sum_list (map abs c)))"
    and "log_abs_sum (map (\<lambda>y. k * y) c) = Fin (ln (sum_list (map abs c)) + ln k)"
proof -
  show "log_abs_sum c = Fin (ln (sum_list (map abs c)))"
    using assms(2) by (simp add: log_abs_sum_def np_log_def)
  have kp: "0 < k * sum_list (map abs c)"
    using assms by simp
  have "\<not> k * sum_list (map abs c) < 0" and "k * sum_list (map abs c) \<noteq> 0"
    using kp by linarith+
  moreover have "ln (k * sum_list (map abs c)) = ln (sum_list (map abs c)) + ln k"
    using assms by (simp add: ln_mult)
  ultimately show "log_abs_sum (map (\<lambda>y. k * y) c) = Fin (ln (sum_list (map abs c)) + ln k)"
    unfolding log_abs_sum_def abs_sum_scale[OF assms(1)] np_log_def
    by (simp only: if_False)
qed

lemma spec_wavelet_features_nth:
  assumes "i < 4"
  shows "spec_wavelet_features data ! i = log_abs_sum (spec_details data ! ([0, 2, 3, 4] ! i))"
proof -
  from assms have "i = 0 \<or> i = 1 \<or> i = 2 \<or> i = 3"
    by arith
  then show ?thesis
    by (auto simp: spec_wavelet_features_def Let_def length_spec_details)
qed

lemma retained_detail_index:
  assumes "i < 4"
  shows "(a # ds) ! ([1, 3, 4, 5] ! i) = ds ! ([0, 2, 3, 4] ! i)"
proof -
  from assms have "i = 0 \<or> i = 1 \<or> i = 2 \<or> i = 3"
    by arith
  then show ?thesis
    by auto
qed

lemma retained_detail_less:
  assumes "i < (4::nat)"
  shows "[0, 2, 3, 4] ! i < (5::nat)"
proof -
  from assms have "i = 0 \<or> i = 1 \<or> i = 2 \<or> i = 3"
    by arith
  then show ?thesis
    by auto
qed

subsection \<open>A unit impulse of 256 samples\<close>

lemma upt8: "[0..<8] = [0, 1, 2, 3, 4, 5, 6, 7 :: nat]"
  by (simp add: upt_rec)

lemma abs_nth_le_abs_sum:
  fixes c :: "real list"
  shows "i < length c \<Longrightarrow> \<bar>c ! i\<bar> \<le> sum_list (map abs c)"
proof (induction c arbitrary: i)
  case Nil
  then show ?case by simp
next
  case (Cons a c)
  have nonneg: "0 \<le> sum_list (map abs c)"
    by (rule sum_list_nonneg) auto
  show ?case
  proof (cases i)
    case 0
    with nonneg show ?thesis by simp
  next
    case (Suc j)
    with Cons.prems have "j < length c" by simp
    from Cons.IH[OF this] Suc show ?thesis by simp
  qed
qed

lemma impulse_detail_0: "dwt_detail (1 # replicate 255 0) ! 0 = dec_hi db4 ! 4"
proof -
  have "(0::nat) < (length (1 # replicate 255 (0::real)) + 1) div 2"
    by simp
  then have "dwt_detail (1 # replicate 255 0) ! 0 =
      (\<Sum>j\<leftarrow>[0..<8]. dec_hi db4 ! j *
         (1 # replicate 255 0) ! per_index 256 (int (8 div 2 + 2 * 0) - int j))"
    unfolding dwt_detail_def dwt_conv_def
    by (simp add: db4_lengths del: upt_Suc)
  also have "\<dots> = dec_hi db4 ! 4"
    by (simp add: upt8 per_index_def db4_def)
  finally show ?thesis .
qed

lemma impulse_detail_positive: "0 < np_sum (np_abs (dwt_detail (1 # replicate 255 0)))"
proof -
  have "0 < length (dwt_detail (1 # replicate 255 0))"
    by (simp add: length_dwt_detail)
  from abs_nth_le_abs_sum[OF this] show ?thesis
    by (simp add: impulse_detail_0 np_sum_def np_abs_def db4_def)
qed

section \<open>Shape of the result\<close>

text \<open>
  C1. For a current epoch of the pipeline (256 samples; the proof covers 224 to 447
  samples, the lengths for which the library chooses five decomposition levels) and a
  non-empty next epoch, \<open>feature_extraction\<close> returns a list holding exactly one list of
  exactly 10 numbers: the 4 wavelet features, the 2 power features, the 2 correlation
  features, the phase feature and the distance feature, in this order.
\<close>

theorem feature_extraction_shape:
  assumes "inv_contract linalg_inv"
    and "224 \<le> length data" and "length data \<le> 447" and "data1 \<noteq> []"
  shows "\<exists>bp1 bp2 wavelet_feat corr_feat phase_feat dist_feat.
           band_signal data [1, 30] = Inr bp1 \<and> band_signal data [3, 12] = Inr bp2 \<and>
           extract_log_sum_wavelets data = Inr wavelet_feat \<and> length wavelet_feat = 4 \<and>
           length (extract_power bp1 bp2) = 2 \<and>
           extract_correlate data data1 bp1 bp2 = Inr corr_feat \<and> length corr_feat = 2 \<and>
           extract_phase data = Inr phase_feat \<and>
           extract_mahalanobis linalg_inv bp1 bp2 = Inr dist_feat \<and>
           feature_extraction linalg_inv data data1 =
             Inr [wavelet_feat @ extract_power bp1 bp2 @ corr_feat @ [phase_feat, dist_feat]] \<and>
           length (wavelet_feat @ extract_power bp1 bp2 @ corr_feat @ [phase_feat, dist_feat])
             = 10"
proof -
  from assms obtain bp1 bp2 c and cs :: "real list" and ph VI mdist where
    r: "band_signal data [1, 30] = Inr bp1" "band_signal data [3, 12] = Inr bp2"
       "length bp1 = length data + 466" "length bp2 = length data + 466"
       "correlate data data1 = Inr (c # cs)"
       "extract_phase data = Inr (Fin ph)"
       "inv_cov_of linalg_inv bp1 bp2 = Inr VI" "mahalanobis bp1 bp2 VI = Inr mdist"
       "extract_mahalanobis linalg_inv bp1 bp2 = Inr (np_power_f (np_var_scalar mdist) 0.25)"
       "feature_extraction linalg_inv data data1 =
          Inr [spec_wavelet_features data @ extract_power bp1 bp2 @
               [np_power c 0.5, Fin ((\<Sum>n\<leftarrow>[0..<length bp1]. bp1 ! n * bp2 ! n)\<^sup>2)] @
               [Fin ph] @ [np_power_f (np_var_scalar mdist) 0.25]]"
    by (rule feature_extraction_ok)
  from assms(2) have ne: "data \<noteq> []"
    by auto
  from r(3,4) have bne: "bp1 \<noteq> []" and eq: "length bp2 = length bp1"
    by auto
  from extract_correlate_ok[OF ne assms(4) bne eq] r(5) have
    cf: "extract_correlate data data1 bp1 bp2 =
          Inr [np_power c 0.5, Fin ((\<Sum>n\<leftarrow>[0..<length bp1]. bp1 ! n * bp2 ! n)\<^sup>2)]"
    by auto
  have w: "extract_log_sum_wavelets data = Inr (spec_wavelet_features data)"
    using assms(2,3) by (rule extract_log_sum_wavelets_ok)
  have "band_signal data [1, 30] = Inr bp1 \<and> band_signal data [3, 12] = Inr bp2 \<and>
        extract_log_sum_wavelets data = Inr (spec_wavelet_features data) \<and>
        length (spec_wavelet_features data) = 4 \<and>
        length (extract_power bp1 bp2) = 2 \<and>
        extract_correlate data data1 bp1 bp2 =
          Inr [np_power c 0.5, Fin ((\<Sum>n\<leftarrow>[0..<length bp1]. bp1 ! n * bp2 ! n)\<^sup>2)] \<and>
        length [np_power c 0.5, Fin ((\<Sum>n\<leftarrow>[0..<length bp1]. bp1 ! n * bp2 ! n)\<^sup>2)] = 2 \<and>
        extract_phase data = Inr (Fin ph) \<and>
        extract_mahalanobis linalg_inv bp1 bp2 =
          Inr (np_power_f (np_var_scalar mdist) 0.25) \<and>
        feature_extraction linalg_inv data data1 =
          Inr [spec_wavelet_features data @ extract_power bp1 bp2 @
               [np_power c 0.5, Fin ((\<Sum>n\<leftarrow>[0..<length bp1]. bp1 ! n * bp2 ! n)\<^sup>2)] @
               [Fin ph, np_power_f (np_var_scalar mdist) 0.25]] \<and>
        length (spec_wavelet_features data @ extract_power bp1 bp2 @
               [np_power c 0.5, Fin ((\<Sum>n\<leftarrow>[0..<length bp1]. bp1 ! n * bp2 ! n)\<^sup>2)] @
               [Fin ph, np_power_f (np_var_scalar mdist) 0.25]) = 10"
    using r(1,2,6,9,10) w cf
    by (simp only: length_spec_wavelet_features length_extract_power length_append) simp
  then show ?thesis
    by (intro exI)
qed

lemma epoch_256:
  "224 \<le> length (replicate 256 (x::real))" "length (replicate 256 (x::real)) \<le> 447"
  "replicate 256 (x::real) \<noteq> []"
  by simp_all

theorem feature_extraction_shape_witness:
  "\<exists>row. feature_extraction exact_inv (replicate 256 1) (replicate 256 2) = Inr [row] \<and>
     length row = 10"
proof -
  from feature_extraction_shape[OF exact_inv_contract epoch_256(1,2) epoch_256(3),
      of 1 2]
  obtain row where
    "feature_extraction exact_inv (replicate 256 1) (replicate 256 2) = Inr [row]"
    "length row = 10"
    by (elim exE conjE)
  then show ?thesis
    by (intro exI conjI)
qed

text \<open>
  The hypothesis on the length matters: on an epoch shorter than 28 samples the library
  chooses fewer than two levels and \<open>del wavelet_feat[1]\<close> raises IndexError.
\<close>

lemma dwt_max_level_short:
  assumes "n < 28"
  shows "dwt_max_level n 8 = Inr 0 \<or> dwt_max_level n 8 = Inr 1"
proof -
  consider "n < 7" | "7 \<le> n" "n < 14" | "14 \<le> n" "n < 28"
    using assms by linarith
  then show ?thesis
  proof cases
    case 1
    then show ?thesis by (simp add: dwt_max_level_def)
  next
    case 2
    then have "1 \<le> n div 7" "n div 7 < 2"
      by arith+
    then have "2 ^ 0 \<le> n div 7" "n div 7 < 2 ^ Suc 0"
      by simp_all
    then have "size_log2 (n div 7) = 0"
      by (rule size_log2_bounds)
    with 2 show ?thesis by (simp add: dwt_max_level_def)
  next
    case 3
    then have "2 \<le> n div 7" "n div 7 < 4"
      by arith+
    then have "2 ^ 1 \<le> n div 7" "n div 7 < 2 ^ Suc 1"
      by simp_all
    then have "size_log2 (n div 7) = 1"
      by (rule size_log2_bounds)
    with 3 show ?thesis by (simp add: dwt_max_level_def)
  qed
qed

lemma short_epoch_raises:
  assumes "data \<noteq> []" and "length data < 28"
  shows "feature_extraction linalg_inv data data1 = Inl IndexError"
proof -
  from band_signals_ok[OF assms(1)] obtain bp1 bp2 where
    bp: "band_signal data [1, 30] = Inr bp1" "band_signal data [3, 12] = Inr bp2"
    by blast
  from dwt_max_level_short[OF assms(2)]
  have "extract_log_sum_wavelets data = Inl IndexError"
    using assms(1)
    by (auto simp: extract_log_sum_wavelets_def wavedec_def db4_lengths dwt_db4 del_at_def)
  with bp show ?thesis
    by (simp add: feature_extraction_def)
qed

section \<open>Dependence on the next epoch\<close>

text \<open>
  C10. Only output 6, the first correlation feature, depends on the next epoch: for a
  current epoch of the pipeline (224 to 447 samples) and any two non-empty next epochs,
  the two feature rows agree at the other nine positions.
\<close>

theorem next_epoch_only_feature_6:
  assumes "inv_contract linalg_inv"
    and "224 \<le> length data" and "length data \<le> 447"
    and "data1 \<noteq> []" and "data1' \<noteq> []"
  shows "\<exists>row row'. feature_extraction linalg_inv data data1 = Inr [row] \<and>
           feature_extraction linalg_inv data data1' = Inr [row'] \<and>
           length row = 10 \<and> length row' = 10 \<and>
           (\<forall>i<10. i \<noteq> 6 \<longrightarrow> row ! i = row' ! i)"
proof -
  from assms(1,2,3,4) obtain bp1 bp2 c and cs :: "real list" and ph VI mdist where
    r: "band_signal data [1, 30] = Inr bp1" "band_signal data [3, 12] = Inr bp2"
       "length bp1 = length data + 466" "length bp2 = length data + 466"
       "correlate data data1 = Inr (c # cs)"
       "extract_phase data = Inr (Fin ph)"
       "inv_cov_of linalg_inv bp1 bp2 = Inr VI" "mahalanobis bp1 bp2 VI = Inr mdist"
       "extract_mahalanobis linalg_inv bp1 bp2 = Inr (np_power_f (np_var_scalar mdist) 0.25)"
       "feature_extraction linalg_inv data data1 =
          Inr [spec_wavelet_features data @ extract_power bp1 bp2 @
               [np_power c 0.5, Fin ((\<Sum>n\<leftarrow>[0..<length bp1]. bp1 ! n * bp2 ! n)\<^sup>2)] @
               [Fin ph] @ [np_power_f (np_var_scalar mdist) 0.25]]"
    by (rule feature_extraction_ok)
  from assms(1,2,3,5) obtain bp1' bp2' c' and cs' :: "real list" and ph' VI' mdist' where
    r': "band_signal data [1, 30] = Inr bp1'" "band_signal data [3, 12] = Inr bp2'"
       "length bp1' = length data + 466" "length bp2' = length data + 466"
       "correlate data data1' = Inr (c' # cs')"
       "extract_phase data = Inr (Fin ph')"
       "inv_cov_of linalg_inv bp1' bp2' = Inr VI'" "mahalanobis bp1' bp2' VI' = Inr mdist'"
       "extract_mahalanobis linalg_inv bp1' bp2' = Inr (np_power_f (np_var_scalar mdist') 0.25)"
       "feature_extraction linalg_inv data data1' =
          Inr [spec_wavelet_features data @ extract_power bp1' bp2' @
               [np_power c' 0.5, Fin ((\<Sum>n\<leftarrow>[0..<length bp1']. bp1' ! n * bp2' ! n)\<^sup>2)] @
               [Fin ph'] @ [np_power_f (np_var_scalar mdist') 0.25]]"
    by (rule feature_extraction_ok)
  from r(1,2,6,7,8) r'(1,2,6,7,8) have same: "bp1' = bp1" "bp2' = bp2" "ph' = ph" "mdist' = mdist"
    by auto
  define x where "x = Fin ((\<Sum>n\<leftarrow>[0..<length bp1]. bp1 ! n * bp2 ! n)\<^sup>2)"
  define t where "t = [Fin ph] @ [np_power_f (np_var_scalar mdist) 0.25]"
  define row where "row = spec_wavelet_features data @ extract_power bp1 bp2 @
               [np_power c 0.5, x] @ t"
  define row' where "row' = spec_wavelet_features data @ extract_power bp1 bp2 @
               [np_power c' 0.5, x] @ t"
  have upd: "row' = row[6 := np_power c' 0.5]"
    unfolding row_def row'_def
    by (rule feature_row_update[OF length_spec_wavelet_features length_extract_power])
  have len: "length row = 10"
    unfolding row_def t_def
    by (rule feature_row_nth(7)[OF length_spec_wavelet_features length_extract_power])
  have "feature_extraction linalg_inv data data1 = Inr [row]"
    using r(10) by (simp only: row_def x_def t_def)
  moreover have "feature_extraction linalg_inv data data1' = Inr [row']"
    using r'(10) by (simp only: row'_def x_def t_def same)
  moreover have "length row' = 10"
    using len upd by simp
  moreover have "\<forall>i<10. i \<noteq> 6 \<longrightarrow> row ! i = row' ! i"
    using upd by simp
  ultimately show ?thesis
    using len by blast
qed

theorem next_epoch_only_feature_6_witness:
  "\<exists>row row'. feature_extraction exact_inv (replicate 256 1) (replicate 256 2) = Inr [row] \<and>
     feature_extraction exact_inv (replicate 256 1) (replicate 256 3) = Inr [row'] \<and>
     row ! 9 = row' ! 9 \<and> row ! 0 = row' ! 0"
proof -
  from next_epoch_only_feature_6[OF exact_inv_contract epoch_256(1,2) epoch_256(3) epoch_256(3),
      of 1 2 3]
  obtain row row' where
    "feature_extraction exact_inv (replicate 256 1) (replicate 256 2) = Inr [row]"
    "feature_extraction exact_inv (replicate 256 1) (replicate 256 3) = Inr [row']"
    "\<forall>i<10. i \<noteq> 6 \<longrightarrow> row ! i = row' ! i"
    by (elim exE conjE)
  moreover from this(3) have "row ! 9 = row' ! 9" "row ! 0 = row' ! 0"
    by simp_all
  ultimately show ?thesis
    by (intro exI conjI)
qed

section \<open>Correlation of an epoch with itself\<close>

text \<open>
  C7. When the current and the next epoch are the same epoch of the pipeline (224 to 447
  samples), output 6 is the square root of the sum of the squares of its samples.
\<close>

theorem self_correlation_feature:
  assumes "inv_contract linalg_inv"
    and "224 \<le> length data" and "length data \<le> 447"
  shows "\<exists>row. feature_extraction linalg_inv data data = Inr [row] \<and> length row = 10 \<and>
           row ! 6 = Fin (sqrt (\<Sum>x\<leftarrow>data. x\<^sup>2))"
proof -
  from assms(2) have ne: "data \<noteq> []"
    by auto
  from assms ne obtain bp1 bp2 c and cs :: "real list" and ph VI mdist where
    r: "band_signal data [1, 30] = Inr bp1" "band_signal data [3, 12] = Inr bp2"
       "length bp1 = length data + 466" "length bp2 = length data + 466"
       "correlate data data = Inr (c # cs)"
       "extract_phase data = Inr (Fin ph)"
       "inv_cov_of linalg_inv bp1 bp2 = Inr VI" "mahalanobis bp1 bp2 VI = Inr mdist"
       "extract_mahalanobis linalg_inv bp1 bp2 = Inr (np_power_f (np_var_scalar mdist) 0.25)"
       "feature_extraction linalg_inv data data =
          Inr [spec_wavelet_features data @ extract_power bp1 bp2 @
               [np_power c 0.5, Fin ((\<Sum>n\<leftarrow>[0..<length bp1]. bp1 ! n * bp2 ! n)\<^sup>2)] @
               [Fin ph] @ [np_power_f (np_var_scalar mdist) 0.25]]"
    by (rule feature_extraction_ok)
  from correlate_same_length[OF ne, of data] r(5) have "c = (\<Sum>x\<leftarrow>data. x\<^sup>2)"
    by (simp add: sum_list_nth_sq)
  then have "np_power c 0.5 = Fin (sqrt (\<Sum>x\<leftarrow>data. x\<^sup>2))"
    using sum_list_sq_nonneg[of data] by (simp only: np_power_half)
  then show ?thesis
    using r(10) feature_row_nth(3,7)[OF length_spec_wavelet_features length_extract_power]
    by simp
qed

theorem self_correlation_feature_witness:
  "\<exists>row. feature_extraction exact_inv (replicate 256 1) (replicate 256 1) = Inr [row] \<and>
     row ! 6 = Fin 16"
proof -
  from self_correlation_feature[OF exact_inv_contract epoch_256(1,2), of 1] obtain row where
    row: "feature_extraction exact_inv (replicate 256 1) (replicate 256 1) = Inr [row]"
      "row ! 6 = Fin (sqrt (\<Sum>x\<leftarrow>replicate 256 1. x\<^sup>2))"
    by (elim exE conjE)
  have "(\<Sum>x\<leftarrow>replicate 256 (1::real). x\<^sup>2) = 16\<^sup>2"
    by (simp add: sum_list_replicate)
  then have "sqrt (\<Sum>x\<leftarrow>replicate 256 (1::real). x\<^sup>2) = 16"
    by (simp only: real_sqrt_abs)
  with row show ?thesis
    by simp
qed

section \<open>The power features\<close>

text \<open>
  C4. For a current epoch of the pipeline (224 to 447 samples), output 4 is the sum of
  the squared samples of the [1-30 Hz] signal, raised to the
  power 0.1; output 5 is the sum of the squared samples of the [3-12 Hz] signal divided by
  that of the [1-30 Hz] signal. The division has no guard: when the [1-30 Hz] power is
  zero the quotient is NaN or an infinity, and the call still returns its row.
\<close>

theorem power_features:
  assumes "inv_contract linalg_inv"
    and "224 \<le> length data" and "length data \<le> 447" and "data1 \<noteq> []"
  shows "\<exists>bp1 bp2 row.
           band_signal data [1, 30] = Inr bp1 \<and> band_signal data [3, 12] = Inr bp2 \<and>
           feature_extraction linalg_inv data data1 = Inr [row] \<and> length row = 10 \<and>
           row ! 4 = Fin ((\<Sum>x\<leftarrow>bp1. x * x) powr 0.1) \<and>
           row ! 5 =
             (if (\<Sum>x\<leftarrow>bp1. x * x) = 0
              then (if (\<Sum>x\<leftarrow>bp2. x * x) = 0 then NaN else PInf)
              else Fin ((\<Sum>x\<leftarrow>bp2. x * x) / (\<Sum>x\<leftarrow>bp1. x * x)))"
proof -
  from assms obtain bp1 bp2 c and cs :: "real list" and ph VI mdist where
    r: "band_signal data [1, 30] = Inr bp1" "band_signal data [3, 12] = Inr bp2"
       "length bp1 = length data + 466" "length bp2 = length data + 466"
       "correlate data data1 = Inr (c # cs)"
       "extract_phase data = Inr (Fin ph)"
       "inv_cov_of linalg_inv bp1 bp2 = Inr VI" "mahalanobis bp1 bp2 VI = Inr mdist"
       "extract_mahalanobis linalg_inv bp1 bp2 = Inr (np_power_f (np_var_scalar mdist) 0.25)"
       "feature_extraction linalg_inv data data1 =
          Inr [spec_wavelet_features data @ extract_power bp1 bp2 @
               [np_power c 0.5, Fin ((\<Sum>n\<leftarrow>[0..<length bp1]. bp1 ! n * bp2 ! n)\<^sup>2)] @
               [Fin ph] @ [np_power_f (np_var_scalar mdist) 0.25]]"
    by (rule feature_extraction_ok)
  define row where "row = spec_wavelet_features data @ extract_power bp1 bp2 @
               [np_power c 0.5, Fin ((\<Sum>n\<leftarrow>[0..<length bp1]. bp1 ! n * bp2 ! n)\<^sup>2)] @
               [Fin ph] @ [np_power_f (np_var_scalar mdist) 0.25]"
  have row: "feature_extraction linalg_inv data data1 = Inr [row]" "length row = 10"
    "row ! 4 = extract_power bp1 bp2 ! 0" "row ! 5 = extract_power bp1 bp2 ! 1"
    using r(10) feature_row_nth(1,2,7)[OF length_spec_wavelet_features length_extract_power]
    by (simp_all only: row_def)
  have p3: "0 \<le> (\<Sum>x\<leftarrow>bp2. x * x)"
    using power_nonneg[of bp2] by (simp add: np_sum_def np_square_def)
  have "row ! 4 = Fin ((\<Sum>x\<leftarrow>bp1. x * x) powr 0.1)"
    using row(3) by (simp add: extract_power_eq np_sum_def np_square_def)
  moreover have "row ! 5 =
             (if (\<Sum>x\<leftarrow>bp1. x * x) = 0
              then (if (\<Sum>x\<leftarrow>bp2. x * x) = 0 then NaN else PInf)
              else Fin ((\<Sum>x\<leftarrow>bp2. x * x) / (\<Sum>x\<leftarrow>bp1. x * x)))"
    using row(4) p3 by (simp add: extract_power_eq np_sum_def np_square_def np_divide_def)
  ultimately show ?thesis
    using r(1,2) row(1,2) by blast
qed

theorem power_features_witness:
  "\<exists>row. feature_extraction exact_inv (replicate 256 0) (replicate 256 1) = Inr [row] \<and>
     row ! 4 = Fin 0 \<and> row ! 5 = NaN"
proof -
  from power_features[OF exact_inv_contract epoch_256(1,2) epoch_256(3), of 0 1]
  obtain bp1 bp2 row where
    f: "band_signal (replicate 256 0) [1, 30] = Inr bp1"
       "band_signal (replicate 256 0) [3, 12] = Inr bp2"
       "feature_extraction exact_inv (replicate 256 0) (replicate 256 1) = Inr [row]"
       "row ! 4 = Fin ((\<Sum>x\<leftarrow>bp1. x * x) powr 0.1)"
       "row ! 5 =
          (if (\<Sum>x\<leftarrow>bp1. x * x) = 0
           then (if (\<Sum>x\<leftarrow>bp2. x * x) = 0 then NaN else PInf)
           else Fin ((\<Sum>x\<leftarrow>bp2. x * x) / (\<Sum>x\<leftarrow>bp1. x * x)))"
    by (elim exE conjE)
  from band_signals_ok[OF epoch_256(3), of 1] obtain u v where
    uv: "band_signal (replicate 256 1) [1, 30] = Inr u"
        "band_signal (replicate 256 1) [3, 12] = Inr v"
    by blast
  from band_signal_scale[OF uv(1), of 0] band_signal_scale[OF uv(2), of 0] f(1,2)
  have "bp1 = map (\<lambda>x. 0 * x) u" "bp2 = map (\<lambda>x. 0 * x) v"
    by simp_all
  then have "(\<Sum>x\<leftarrow>bp1. x * x) = 0" "(\<Sum>x\<leftarrow>bp2. x * x) = 0"
    by (simp_all add: comp_def)
  with f(3,4,5) show ?thesis
    by simp
qed

section \<open>Scaling the amplitude\<close>

text \<open>
  C8. For a current epoch of the pipeline (224 to 447 samples), multiplying its samples
  by a constant \<open>k > 0\<close> multiplies
  output 4, the power to the 0.1, by \<open>k\<close> to the 0.2 and leaves output 5, the power
  ratio, unchanged.
\<close>

theorem power_features_scaling:
  assumes "inv_contract linalg_inv" and "0 < k"
    and "224 \<le> length data" and "length data \<le> 447"
    and "data1 \<noteq> []" and "data1' \<noteq> []"
  shows "\<exists>row row' p.
           feature_extraction linalg_inv data data1 = Inr [row] \<and>
           feature_extraction linalg_inv (map (\<lambda>x. k * x) data) data1' = Inr [row'] \<and>
           row ! 4 = Fin p \<and> row' ! 4 = Fin (k powr 0.2 * p) \<and> row' ! 5 = row ! 5"
proof -
  from assms(1,3,4,5) obtain bp1 bp2 c and cs :: "real list" and ph VI mdist where
    r: "band_signal data [1, 30] = Inr bp1" "band_signal data [3, 12] = Inr bp2"
       "length bp1 = length data + 466" "length bp2 = length data + 466"
       "correlate data data1 = Inr (c # cs)"
       "extract_phase data = Inr (Fin ph)"
       "inv_cov_of linalg_inv bp1 bp2 = Inr VI" "mahalanobis bp1 bp2 VI = Inr mdist"
       "extract_mahalanobis linalg_inv bp1 bp2 = Inr (np_power_f (np_var_scalar mdist) 0.25)"
       "feature_extraction linalg_inv data data1 =
          Inr [spec_wavelet_features data @ extract_power bp1 bp2 @
               [np_power c 0.5, Fin ((\<Sum>n\<leftarrow>[0..<length bp1]. bp1 ! n * bp2 ! n)\<^sup>2)] @
               [Fin ph] @ [np_power_f (np_var_scalar mdist) 0.25]]"
    by (rule feature_extraction_ok)
  let ?kd = "map (\<lambda>x. k * x) data"
  have klen: "224 \<le> length ?kd" "length ?kd \<le> 447"
    using assms(3,4) by simp_all
  from assms(1) klen assms(6) obtain bp1' bp2' c' and cs' :: "real list" and ph' VI' mdist' where
    r': "band_signal ?kd [1, 30] = Inr bp1'" "band_signal ?kd [3, 12] = Inr bp2'"
       "length bp1' = length ?kd + 466" "length bp2' = length ?kd + 466"
       "correlate ?kd data1' = Inr (c' # cs')"
       "extract_phase ?kd = Inr (Fin ph')"
       "inv_cov_of linalg_inv bp1' bp2' = Inr VI'" "mahalanobis bp1' bp2' VI' = Inr mdist'"
       "extract_mahalanobis linalg_inv bp1' bp2' = Inr (np_power_f (np_var_scalar mdist') 0.25)"
       "feature_extraction linalg_inv ?kd data1' =
          Inr [spec_wavelet_features ?kd @ extract_power bp1' bp2' @
               [np_power c' 0.5, Fin ((\<Sum>n\<leftarrow>[0..<length bp1']. bp1' ! n * bp2' ! n)\<^sup>2)] @
               [Fin ph'] @ [np_power_f (np_var_scalar mdist') 0.25]]"
    by (rule feature_extraction_ok)
  from band_signal_scale[OF r(1), of k] band_signal_scale[OF r(2), of k] r'(1,2)
  have bp': "bp1' = map (\<lambda>x. k * x) bp1" "bp2' = map (\<lambda>x. k * x) bp2"
    by simp_all
  define p where "p = np_sum (np_square bp1) powr (1 / 10)"
  define q where "q = np_divide (np_sum (np_square bp2)) (np_sum (np_square bp1))"
  have P: "extract_power bp1 bp2 = [Fin p, q]"
    by (simp only: extract_power_eq p_def q_def)
  have P': "extract_power bp1' bp2' = [Fin (k powr (1 / 5) * p), q]"
    by (simp only: bp' extract_power_scale[OF assms(2)] p_def q_def)
  define row where "row = spec_wavelet_features data @ extract_power bp1 bp2 @
               [np_power c 0.5, Fin ((\<Sum>n\<leftarrow>[0..<length bp1]. bp1 ! n * bp2 ! n)\<^sup>2)] @
               [Fin ph] @ [np_power_f (np_var_scalar mdist) 0.25]"
  define row' where "row' = spec_wavelet_features ?kd @ extract_power bp1' bp2' @
               [np_power c' 0.5, Fin ((\<Sum>n\<leftarrow>[0..<length bp1']. bp1' ! n * bp2' ! n)\<^sup>2)] @
               [Fin ph'] @ [np_power_f (np_var_scalar mdist') 0.25]"
  have row: "feature_extraction linalg_inv data data1 = Inr [row]"
    "row ! 4 = extract_power bp1 bp2 ! 0" "row ! 5 = extract_power bp1 bp2 ! 1"
    using r(10) feature_row_nth(1,2)[OF length_spec_wavelet_features length_extract_power]
    by (simp_all only: row_def)
  have row': "feature_extraction linalg_inv ?kd data1' = Inr [row']"
    "row' ! 4 = extract_power bp1' bp2' ! 0" "row' ! 5 = extract_power bp1' bp2' ! 1"
    using r'(10) feature_row_nth(1,2)[OF length_spec_wavelet_features length_extract_power]
    by (simp_all only: row'_def)
  have "row ! 4 = Fin p" "row' ! 4 = Fin (k powr 0.2 * p)" "row' ! 5 = row ! 5"
    using row(2,3) row'(2,3) by (simp_all add: P P')
  with row(1) row'(1) show ?thesis
    by blast
qed

theorem power_features_scaling_witness:
  "\<exists>row row' p. feature_extraction exact_inv (replicate 256 1) (replicate 256 2) = Inr [row] \<and>
     feature_extraction exact_inv (replicate 256 3) (replicate 256 2) = Inr [row'] \<and>
     row ! 4 = Fin p \<and> row' ! 4 = Fin (3 powr 0.2 * p) \<and> row' ! 5 = row ! 5"
proof -
  have "(0::real) < 3"
    by simp
  from power_features_scaling[OF exact_inv_contract this epoch_256(1,2) epoch_256(3)
      epoch_256(3), of 1 2 2]
  show ?thesis
    by simp
qed

section \<open>The distance feature\<close>

text \<open>
  C5. For a current epoch of the pipeline (224 to 447 samples) and an inversion routine
  that keeps to its contract, output 9 is the variance of the single Mahalanobis distance, raised to the power
  0.25. The variance of one number is zero, so the feature is 0 whenever the distance is
  a finite number, and in particular whenever the identity matrix replaced the inverse;
  when the distance is NaN the feature is NaN.
\<close>

theorem distance_feature_zero:
  assumes "inv_contract linalg_inv"
    and "224 \<le> length data" and "length data \<le> 447" and "data1 \<noteq> []"
  shows "\<exists>bp1 bp2 VI mdist row.
           band_signal data [1, 30] = Inr bp1 \<and> band_signal data [3, 12] = Inr bp2 \<and>
           inv_cov_of linalg_inv bp1 bp2 = Inr VI \<and> mahalanobis bp1 bp2 VI = Inr mdist \<and>
           feature_extraction linalg_inv data data1 = Inr [row] \<and> length row = 10 \<and>
           row ! 9 = np_power_f (np_var_scalar mdist) 0.25 \<and>
           ((\<exists>d. mdist = Fin d) \<longrightarrow> row ! 9 = Fin 0) \<and>
           (mdist = NaN \<longrightarrow> row ! 9 = NaN) \<and>
           (linalg_inv (outer bp1 bp2) = Inl LinAlgError \<longrightarrow>
              VI = eye (length bp1) \<and> (\<exists>d. mdist = Fin d) \<and> row ! 9 = Fin 0)"
proof -
  from assms obtain bp1 bp2 c and cs :: "real list" and ph VI mdist where
    r: "band_signal data [1, 30] = Inr bp1" "band_signal data [3, 12] = Inr bp2"
       "length bp1 = length data + 466" "length bp2 = length data + 466"
       "correlate data data1 = Inr (c # cs)"
       "extract_phase data = Inr (Fin ph)"
       "inv_cov_of linalg_inv bp1 bp2 = Inr VI" "mahalanobis bp1 bp2 VI = Inr mdist"
       "extract_mahalanobis linalg_inv bp1 bp2 = Inr (np_power_f (np_var_scalar mdist) 0.25)"
       "feature_extraction linalg_inv data data1 =
          Inr [spec_wavelet_features data @ extract_power bp1 bp2 @
               [np_power c 0.5, Fin ((\<Sum>n\<leftarrow>[0..<length bp1]. bp1 ! n * bp2 ! n)\<^sup>2)] @
               [Fin ph] @ [np_power_f (np_var_scalar mdist) 0.25]]"
    by (rule feature_extraction_ok)
  define row where "row = spec_wavelet_features data @ extract_power bp1 bp2 @
               [np_power c 0.5, Fin ((\<Sum>n\<leftarrow>[0..<length bp1]. bp1 ! n * bp2 ! n)\<^sup>2)] @
               [Fin ph] @ [np_power_f (np_var_scalar mdist) 0.25]"
  from r(3,4) have eq: "length bp2 = length bp1"
    by simp
  have row: "feature_extraction linalg_inv data data1 = Inr [row]" "length row = 10"
    "row ! 9 = np_power_f (np_var_scalar mdist) 0.25"
    using r(10) feature_row_nth(6,7)[OF length_spec_wavelet_features length_extract_power]
    by (simp_all only: row_def)
  have fin: "row ! 9 = Fin 0" if "\<exists>d. mdist = Fin d"
    using that row(3) by (auto simp: np_power_def)
  have nan: "row ! 9 = NaN" if "mdist = NaN"
    using that row(3) by (simp add: np_power_def)
  have fb: "VI = eye (length bp1) \<and> (\<exists>d. mdist = Fin d) \<and> row ! 9 = Fin 0"
    if s: "linalg_inv (outer bp1 bp2) = Inl LinAlgError"
  proof -
    from inv_cov_of_fallback[of linalg_inv bp1 bp2, OF s] r(7) have VI: "VI = eye (length bp1)"
      by simp
    with mahalanobis_eye[OF eq] r(8) have "\<exists>d. mdist = Fin d"
      by auto
    with VI fin show ?thesis
      by blast
  qed
  from r(1,2,7,8) row fin nan fb show ?thesis
    by blast
qed

theorem distance_feature_zero_witness:
  "\<exists>row. feature_extraction exact_inv (replicate 256 1) (replicate 256 2) = Inr [row] \<and>
     row ! 9 = Fin 0"
proof -
  from distance_feature_zero[OF exact_inv_contract epoch_256(1,2) epoch_256(3), of 1 2]
  obtain bp1 bp2 VI mdist row where
    f: "band_signal (replicate 256 1) [1, 30] = Inr bp1"
       "band_signal (replicate 256 1) [3, 12] = Inr bp2"
       "feature_extraction exact_inv (replicate 256 1) (replicate 256 2) = Inr [row]"
       "exact_inv (outer bp1 bp2) = Inl LinAlgError \<longrightarrow>
          VI = eye (length bp1) \<and> (\<exists>d. mdist = Fin d) \<and> row ! 9 = Fin 0"
    by (elim exE conjE)
  from band_signals_ok[OF epoch_256(3), of 1] f(1,2)
  have "2 \<le> length bp1" "length bp2 = length bp1"
    by auto
  then have "exact_inv (outer bp1 bp2) = Inl LinAlgError"
    by (rule exact_inv_outer)
  with f(3,4) show ?thesis
    by simp
qed

section \<open>The fall-back to the identity matrix\<close>

text \<open>
  C6. The outer product of the two band signals is inverted. When the inversion raises
  the singular-matrix error, the identity matrix of the size of the first signal takes
  the place of the inverse and the distance feature is computed from it, which gives 0;
  when the inversion returns a matrix, that matrix is the one used. In both cases an
  inversion that keeps to its contract leaves no error unhandled.
\<close>

theorem singular_outer_product_fallback:
  assumes "length v = length u"
  shows "(linalg_inv (outer u v) = Inl LinAlgError \<longrightarrow>
            inv_cov_of linalg_inv u v = Inr (eye (length u)) \<and>
            mahalanobis u v (eye (length u)) =
              Inr (Fin (sqrt (dot (map2 (-) u v) (map2 (-) u v)))) \<and>
            extract_mahalanobis linalg_inv u v = Inr (Fin 0)) \<and>
         (\<forall>B. linalg_inv (outer u v) = Inr B \<longrightarrow>
            inv_cov_of linalg_inv u v = Inr B \<and>
            (length B = length u \<and> list_all (\<lambda>r. length r = length u) B \<longrightarrow>
               extract_mahalanobis linalg_inv u v =
                 Inr (np_power_f
                        (np_var_scalar (np_sqrt (dot (vecmat (map2 (-) u v) B) (map2 (-) u v))))
                        0.25))) \<and>
         (inv_contract linalg_inv \<longrightarrow> (\<exists>feat. extract_mahalanobis linalg_inv u v = Inr feat))"
proof -
  have a: "inv_cov_of linalg_inv u v = Inr (eye (length u)) \<and>
            mahalanobis u v (eye (length u)) =
              Inr (Fin (sqrt (dot (map2 (-) u v) (map2 (-) u v)))) \<and>
            extract_mahalanobis linalg_inv u v = Inr (Fin 0)"
    if s: "linalg_inv (outer u v) = Inl LinAlgError"
    using inv_cov_of_fallback[of linalg_inv u v, OF s] mahalanobis_eye[OF assms]
    by (simp add: extract_mahalanobis_def np_power_def)
  have b: "inv_cov_of linalg_inv u v = Inr B \<and>
            (length B = length u \<and> list_all (\<lambda>r. length r = length u) B \<longrightarrow>
               extract_mahalanobis linalg_inv u v =
                 Inr (np_power_f
                        (np_var_scalar (np_sqrt (dot (vecmat (map2 (-) u v) B) (map2 (-) u v))))
                        0.25))"
    if s: "linalg_inv (outer u v) = Inr B" for B
  proof -
    have i: "inv_cov_of linalg_inv u v = Inr B"
      using s by (rule inv_cov_of_inverse[of linalg_inv u v B])
    have "extract_mahalanobis linalg_inv u v =
            Inr (np_power_f
                   (np_var_scalar (np_sqrt (dot (vecmat (map2 (-) u v) B) (map2 (-) u v))))
                   0.25)"
      if "length B = length u" "list_all (\<lambda>r. length r = length u) B"
      using extract_mahalanobis_eq[OF i mahalanobis_ok[OF assms that]] .
    with i show ?thesis
      by blast
  qed
  have c: "\<exists>feat. extract_mahalanobis linalg_inv u v = Inr feat" if "inv_contract linalg_inv"
    using extract_mahalanobis_ok[OF that assms] by blast
  from a b c show ?thesis
    by blast
qed

theorem singular_outer_product_fallback_witness:
  "exact_inv (outer [1, 2] [3, 5]) = Inl LinAlgError \<and>
   inv_cov_of exact_inv [1, 2] [3, 5] = Inr [[1, 0], [0, 1]] \<and>
   extract_mahalanobis exact_inv [1, 2] [3, 5] = Inr (Fin 0) \<and>
   exact_inv (outer [2] [- 3]) = Inr [[- (1 / 6)]] \<and>
   inv_cov_of exact_inv [2] [- 3] = Inr [[- (1 / 6)]] \<and>
   extract_mahalanobis exact_inv [2] [- 3] = Inr NaN"
proof -
  have l2: "length [3, 5 :: real] = length [1, 2 :: real]"
    by simp
  have l1: "length [- 3 :: real] = length [2 :: real]"
    by simp
  have s: "exact_inv (outer [1, 2] [3, 5]) = Inl LinAlgError"
    by (rule exact_inv_outer) simp_all
  have i: "exact_inv (outer [2] [- 3]) = Inr [[- (1 / 6)]]"
    by (simp add: exact_inv_def outer_def minor_mat_def del_col_def)
  from singular_outer_product_fallback[OF l2, of exact_inv] s
  have "inv_cov_of exact_inv [1, 2] [3, 5] = Inr [[1, 0], [0, 1]]"
    "extract_mahalanobis exact_inv [1, 2] [3, 5] = Inr (Fin 0)"
    by (simp_all add: eye_def upt_rec)
  moreover from singular_outer_product_fallback[OF l1, of exact_inv] i
  have "inv_cov_of exact_inv [2] [- 3] = Inr [[- (1 / 6)]]"
    "extract_mahalanobis exact_inv [2] [- 3] = Inr NaN"
    by (simp_all add: vecmat_def dot_def np_sqrt_def)
  ultimately show ?thesis
    using s i by simp
qed

section \<open>Scaling and the wavelet features\<close>

text \<open>
  C9. For a current epoch of the pipeline (224 to 447 samples), multiplying its samples
  by a constant \<open>k > 0\<close> adds
  \<open>ln k\<close> to each of the four wavelet features whose detail set has a positive absolute
  sum. Feature \<open>i\<close> is computed from coefficient set \<open>[1, 3, 4, 5] ! i\<close> of the
  decomposition that line 44 computes.
\<close>

theorem wavelet_features_scaling:
  assumes "inv_contract linalg_inv" and "0 < k"
    and "224 \<le> length data" and "length data \<le> 447"
    and "data1 \<noteq> []" and "data1' \<noteq> []"
  shows "\<exists>coefficients row row'.
           wavedec data db4 MODE_PERIODIZATION None = Inr coefficients \<and>
           length coefficients = 6 \<and>
           feature_extraction linalg_inv data data1 = Inr [row] \<and>
           feature_extraction linalg_inv (map (\<lambda>x. k * x) data) data1' = Inr [row'] \<and>
           (\<forall>i<4. 0 < np_sum (np_abs (coefficients ! ([1, 3, 4, 5] ! i))) \<longrightarrow>
              (\<exists>w. row ! i = Fin w \<and> row' ! i = Fin (w + ln k)))"
proof -
  from assms(3) have ne: "data \<noteq> []"
    by auto
  from assms(1,3,4,5) obtain bp1 bp2 c and cs :: "real list" and ph VI mdist where
    r: "band_signal data [1, 30] = Inr bp1" "band_signal data [3, 12] = Inr bp2"
       "length bp1 = length data + 466" "length bp2 = length data + 466"
       "correlate data data1 = Inr (c # cs)"
       "extract_phase data = Inr (Fin ph)"
       "inv_cov_of linalg_inv bp1 bp2 = Inr VI" "mahalanobis bp1 bp2 VI = Inr mdist"
       "extract_mahalanobis linalg_inv bp1 bp2 = Inr (np_power_f (np_var_scalar mdist) 0.25)"
       "feature_extraction linalg_inv data data1 =
          Inr [spec_wavelet_features data @ extract_power bp1 bp2 @
               [np_power c 0.5, Fin ((\<Sum>n\<leftarrow>[0..<length bp1]. bp1 ! n * bp2 ! n)\<^sup>2)] @
               [Fin ph] @ [np_power_f (np_var_scalar mdist) 0.25]]"
    by (rule feature_extraction_ok)
  let ?kd = "map (\<lambda>x. k * x) data"
  have klen: "224 \<le> length ?kd" "length ?kd \<le> 447"
    using assms(3,4) by simp_all
  from assms(1) klen assms(6) obtain bp1' bp2' c' and cs' :: "real list" and ph' VI' mdist' where
    r': "band_signal ?kd [1, 30] = Inr bp1'" "band_signal ?kd [3, 12] = Inr bp2'"
       "length bp1' = length ?kd + 466" "length bp2' = length ?kd + 466"
       "correlate ?kd data1' = Inr (c' # cs')"
       "extract_phase ?kd = Inr (Fin ph')"
       "inv_cov_of linalg_inv bp1' bp2' = Inr VI'" "mahalanobis bp1' bp2' VI' = Inr mdist'"
       "extract_mahalanobis linalg_inv bp1' bp2' = Inr (np_power_f (np_var_scalar mdist') 0.25)"
       "feature_extraction linalg_inv ?kd data1' =
          Inr [spec_wavelet_features ?kd @ extract_power bp1' bp2' @
               [np_power c' 0.5, Fin ((\<Sum>n\<leftarrow>[0..<length bp1']. bp1' ! n * bp2' ! n)\<^sup>2)] @
               [Fin ph'] @ [np_power_f (np_var_scalar mdist') 0.25]]"
    by (rule feature_extraction_ok)
  define a5 where "a5 = dwt_approx (dwt_approx (dwt_approx (dwt_approx (dwt_approx data))))"
  define coefficients where "coefficients = a5 # spec_details data"
  define row where "row = spec_wavelet_features data @ extract_power bp1 bp2 @
               [np_power c 0.5, Fin ((\<Sum>n\<leftarrow>[0..<length bp1]. bp1 ! n * bp2 ! n)\<^sup>2)] @
               [Fin ph] @ [np_power_f (np_var_scalar mdist) 0.25]"
  define row' where "row' = spec_wavelet_features ?kd @ extract_power bp1' bp2' @
               [np_power c' 0.5, Fin ((\<Sum>n\<leftarrow>[0..<length bp1']. bp1' ! n * bp2' ! n)\<^sup>2)] @
               [Fin ph'] @ [np_power_f (np_var_scalar mdist') 0.25]"
  have wd: "wavedec data db4 MODE_PERIODIZATION None = Inr coefficients"
    "length coefficients = 6"
    using wavedec_db4[OF assms(3,4)]
    by (simp_all add: coefficients_def a5_def length_spec_details)
  have rows: "feature_extraction linalg_inv data data1 = Inr [row]"
    "feature_extraction linalg_inv ?kd data1' = Inr [row']"
    using r(10) r'(10) by (simp_all only: row_def row'_def)
  have "\<exists>w. row ! i = Fin w \<and> row' ! i = Fin (w + ln k)"
    if i: "i < 4" and pos: "0 < np_sum (np_abs (coefficients ! ([1, 3, 4, 5] ! i)))" for i
  proof -
    define d where "d = spec_details data ! ([0, 2, 3, 4] ! i)"
    have "coefficients ! ([1, 3, 4, 5] ! i) = d"
      unfolding coefficients_def d_def using i by (rule retained_detail_index)
    with pos have dpos: "0 < sum_list (map abs d)"
      by (simp add: np_sum_def np_abs_def)
    have "row ! i = spec_wavelet_features data ! i"
      unfolding row_def using length_spec_wavelet_features i by (rule feature_row_nth_wavelet)
    then have 1: "row ! i = log_abs_sum d"
      by (simp only: spec_wavelet_features_nth[OF i] d_def)
    have "row' ! i = spec_wavelet_features ?kd ! i"
      unfolding row'_def using length_spec_wavelet_features i by (rule feature_row_nth_wavelet)
    then have "row' ! i = log_abs_sum (spec_details ?kd ! ([0, 2, 3, 4] ! i))"
      by (simp only: spec_wavelet_features_nth[OF i])
    then have 2: "row' ! i = log_abs_sum (map (\<lambda>y. k * y) d)"
      using retained_detail_less[OF i]
      by (simp add: spec_details_scale[OF ne] d_def length_spec_details)
    from 1 2 log_abs_sum_scale[OF assms(2) dpos] show ?thesis
      by simp
  qed
  with wd rows show ?thesis
    by blast
qed

lemma impulse_256:
  "224 \<le> length (1 # replicate 255 (0::real))" "length (1 # replicate 255 (0::real)) \<le> 447"
  by simp_all

theorem wavelet_features_scaling_witness:
  "\<exists>row row' w.
     feature_extraction exact_inv (1 # replicate 255 0) (replicate 256 1) = Inr [row] \<and>
     feature_extraction exact_inv (2 # replicate 255 0) (replicate 256 1) = Inr [row'] \<and>
     row ! 3 = Fin w \<and> row' ! 3 = Fin (w + ln 2)"
proof -
  have k: "(0::real) < 2"
    by simp
  from wavelet_features_scaling[OF exact_inv_contract k impulse_256 epoch_256(3) epoch_256(3),
      of 1 1]
  obtain coefficients row row' where
    f: "wavedec (1 # replicate 255 0) db4 MODE_PERIODIZATION None = Inr coefficients"
       "feature_extraction exact_inv (1 # replicate 255 0) (replicate 256 1) = Inr [row]"
       "feature_extraction exact_inv (map (\<lambda>x. 2 * x) (1 # replicate 255 0)) (replicate 256 1)
          = Inr [row']"
       "\<forall>i<4. 0 < np_sum (np_abs (coefficients ! ([1, 3, 4, 5] ! i))) \<longrightarrow>
              (\<exists>w. row ! i = Fin w \<and> row' ! i = Fin (w + ln 2))"
    by (elim exE conjE)
  from f(1) wavedec_db4[OF impulse_256]
  have "coefficients ! 5 = dwt_detail (1 # replicate 255 0)"
    by (auto simp: spec_details_def Let_def)
  with impulse_detail_positive
  have "0 < np_sum (np_abs (coefficients ! ([1, 3, 4, 5] ! 3)))"
    by simp
  moreover have "(3::nat) < 4"
    by simp
  ultimately obtain w where "row ! 3 = Fin w" "row' ! 3 = Fin (w + ln 2)"
    using f(4)[THEN spec, of 3] by blast
  with f(2,3) show ?thesis
    by simp
qed

section \<open>The wavelet features\<close>

text \<open>
  C2. For an epoch of the pipeline (224 to 447 samples) the decomposition of line 44 has
  five levels and returns six coefficient sets, the last approximation followed by the
  five detail sets from the coarsest (level 5) to the finest (level 1), each level half
  as long as the one before (the call selects mode \<open>periodization\<close>). The wavelet
  features are the logarithms of the absolute sums of the detail sets, without the second
  one: exactly four values, for levels 5, 3, 2, 1.
\<close>

theorem wavelet_features:
  assumes "224 \<le> length data" and "length data \<le> 447"
  shows "\<exists>cA5 cD5 cD4 cD3 cD2 cD1.
           dwt_max_level (length data) (length (dec_lo db4)) = Inr 5 \<and>
           wavedec data db4 MODE_PERIODIZATION None = Inr [cA5, cD5, cD4, cD3, cD2, cD1] \<and>
           cD1 = dwt_detail data \<and>
           cD2 = dwt_detail (dwt_approx data) \<and>
           cD3 = dwt_detail (dwt_approx (dwt_approx data)) \<and>
           cD4 = dwt_detail (dwt_approx (dwt_approx (dwt_approx data))) \<and>
           cD5 = dwt_detail (dwt_approx (dwt_approx (dwt_approx (dwt_approx data)))) \<and>
           cA5 = dwt_approx (dwt_approx (dwt_approx (dwt_approx (dwt_approx data)))) \<and>
           length cD1 = (length data + 1) div 2 \<and>
           length cD2 = (length cD1 + 1) div 2 \<and>
           length cD3 = (length cD2 + 1) div 2 \<and>
           length cD4 = (length cD3 + 1) div 2 \<and>
           length cD5 = (length cD4 + 1) div 2 \<and>
           length cA5 = length cD5 \<and>
           (\<forall>k<length cD1.
              cD1 ! k = (\<Sum>j\<leftarrow>[0..<8]. dec_hi db4 ! j *
                           data ! per_index (length data) (int (4 + 2 * k) - int j))) \<and>
           extract_log_sum_wavelets data =
             Inr [np_log (np_sum (np_abs cD5)), np_log (np_sum (np_abs cD3)),
                  np_log (np_sum (np_abs cD2)), np_log (np_sum (np_abs cD1))] \<and>
           extract_log_sum_wavelets data = Inr (spec_wavelet_features data) \<and>
           length (spec_wavelet_features data) = 4"
proof -
  have "wavedec data db4 MODE_PERIODIZATION None =
          Inr [dwt_approx (dwt_approx (dwt_approx (dwt_approx (dwt_approx data)))),
               dwt_detail (dwt_approx (dwt_approx (dwt_approx (dwt_approx data)))),
               dwt_detail (dwt_approx (dwt_approx (dwt_approx data))),
               dwt_detail (dwt_approx (dwt_approx data)),
               dwt_detail (dwt_approx data),
               dwt_detail data]"
    using wavedec_db4[OF assms] by (simp add: spec_details_def Let_def)
  moreover have "extract_log_sum_wavelets data =
          Inr [np_log (np_sum (np_abs (dwt_detail (dwt_approx (dwt_approx (dwt_approx (dwt_approx data))))))),
               np_log (np_sum (np_abs (dwt_detail (dwt_approx (dwt_approx data))))),
               np_log (np_sum (np_abs (dwt_detail (dwt_approx data)))),
               np_log (np_sum (np_abs (dwt_detail data)))]"
    using extract_log_sum_wavelets_ok[OF assms]
    by (simp add: spec_wavelet_features_def spec_details_def Let_def log_abs_sum_def
        np_sum_def np_abs_def)
  moreover have "dwt_max_level (length data) (length (dec_lo db4)) = Inr 5"
    using dwt_max_level_epoch[OF assms] by (simp add: db4_lengths)
  moreover have "\<forall>k<length (dwt_detail data).
      dwt_detail data ! k = (\<Sum>j\<leftarrow>[0..<8]. dec_hi db4 ! j *
                           data ! per_index (length data) (int (4 + 2 * k) - int j))"
    by (simp add: dwt_detail_def dwt_conv_def db4_lengths del: upt_Suc)
  moreover note extract_log_sum_wavelets_ok[OF assms] length_spec_wavelet_features[of data]
    length_dwt_detail length_dwt_approx
  ultimately show ?thesis
    by (intro exI conjI) (assumption | rule refl | simp only: length_dwt_detail length_dwt_approx)+
qed

theorem wavelet_features_witness:
  "\<exists>cA5 cD5 cD4 cD3 cD2 cD1 f5 f3 f2 f1.
     wavedec (1 # replicate 255 0) db4 MODE_PERIODIZATION None =
       Inr [cA5, cD5, cD4, cD3, cD2, cD1] \<and>
     map length [cA5, cD5, cD4, cD3, cD2, cD1] = [8, 8, 16, 32, 64, 128] \<and>
     cD1 ! 0 = dec_hi db4 ! 4 \<and>
     extract_log_sum_wavelets (1 # replicate 255 0) = Inr [f5, f3, f2, f1]"
proof -
  from wavelet_features[OF impulse_256] obtain cA5 cD5 cD4 cD3 cD2 cD1 where
    f: "wavedec (1 # replicate 255 0) db4 MODE_PERIODIZATION None =
          Inr [cA5, cD5, cD4, cD3, cD2, cD1]"
       "cD1 = dwt_detail (1 # replicate 255 0)"
       "length cD1 = (length (1 # replicate 255 (0::real)) + 1) div 2"
       "length cD2 = (length cD1 + 1) div 2"
       "length cD3 = (length cD2 + 1) div 2"
       "length cD4 = (length cD3 + 1) div 2"
       "length cD5 = (length cD4 + 1) div 2"
       "length cA5 = length cD5"
       "extract_log_sum_wavelets (1 # replicate 255 0) =
             Inr [np_log (np_sum (np_abs cD5)), np_log (np_sum (np_abs cD3)),
                  np_log (np_sum (np_abs cD2)), np_log (np_sum (np_abs cD1))]"
    by (elim exE conjE)
  have "map length [cA5, cD5, cD4, cD3, cD2, cD1] = [8, 8, 16, 32, 64, 128]"
    using f(3,4,5,6,7,8) by simp
  moreover have "cD1 ! 0 = dec_hi db4 ! 4"
    using f(2) impulse_detail_0 by simp
  ultimately have "wavedec (1 # replicate 255 0) db4 MODE_PERIODIZATION None =
       Inr [cA5, cD5, cD4, cD3, cD2, cD1] \<and>
     map length [cA5, cD5, cD4, cD3, cD2, cD1] = [8, 8, 16, 32, 64, 128] \<and>
     cD1 ! 0 = dec_hi db4 ! 4 \<and>
     extract_log_sum_wavelets (1 # replicate 255 0) =
       Inr [np_log (np_sum (np_abs cD5)), np_log (np_sum (np_abs cD3)),
            np_log (np_sum (np_abs cD2)), np_log (np_sum (np_abs cD1))]"
    using f(1,9) by (intro conjI)
  then show ?thesis
    by (intro exI)
qed

section \<open>The kernels of the band signals\<close>

text \<open>
  C3. Both band signals are the full convolution of the epoch with a kernel of 467 taps,
  so they are 466 samples longer than the epoch. The kernels are designed by
  \<open>firwin(467, [1, 30], fs=128)\<close> and \<open>firwin(467, [3, 12], fs=128)\<close>, where
  \<open>pass_zero\<close> keeps its default: the pass-bands of the two designs are from 0 to 1 Hz
  with 30 to 64 Hz, and from 0 to 3 Hz with 12 to 64 Hz (as fractions of the Nyquist
  frequency 64 Hz), so the bands 1 to 30 Hz and 3 to 12 Hz are stopped, not passed. The
  band-pass designs are the ones with \<open>pass_zero = False\<close>.
\<close>

theorem band_signal_kernels:
  "firwin_bands 467 [1, 30] True 128 = Inr [(0, 1 / 64), (30 / 64, 1)] \<and>
   firwin_bands 467 [3, 12] True 128 = Inr [(0, 3 / 64), (12 / 64, 1)] \<and>
   firwin_bands 467 [1, 30] False 128 = Inr [(1 / 64, 30 / 64)] \<and>
   firwin_bands 467 [3, 12] False 128 = Inr [(3 / 64, 12 / 64)] \<and>
   (\<exists>taps1 taps2 bp1 bp2.
      firwin 467 [1, 30] True 128 = Inr taps1 \<and> length taps1 = 467 \<and>
      firwin 467 [3, 12] True 128 = Inr taps2 \<and> length taps2 = 467 \<and>
      band_signal (replicate 256 1) [1, 30] = Inr bp1 \<and>
      convolve (replicate 256 1) taps1 = Inr bp1 \<and> length bp1 = 256 + 466 \<and>
      band_signal (replicate 256 1) [3, 12] = Inr bp2 \<and>
      convolve (replicate 256 1) taps2 = Inr bp2 \<and> length bp2 = 256 + 466)"
proof -
  have ne: "replicate 256 (1::real) \<noteq> []"
    by simp
  from band_signal_ok[OF ne, of "[1, 30]"] obtain taps1 where
    t1: "firwin 467 [1, 30] True 128 = Inr taps1" "length taps1 = 467"
        "band_signal (replicate 256 1) [1, 30] =
           Inr (map (conv_at (replicate 256 1) taps1) [0..<length (replicate 256 (1::real)) + 466])"
    by auto
  from band_signal_ok[OF ne, of "[3, 12]"] obtain taps2 where
    t2: "firwin 467 [3, 12] True 128 = Inr taps2" "length taps2 = 467"
        "band_signal (replicate 256 1) [3, 12] =
           Inr (map (conv_at (replicate 256 1) taps2) [0..<length (replicate 256 (1::real)) + 466])"
    by auto
  have c1: "convolve (replicate 256 1) taps1 =
        Inr (map (conv_at (replicate 256 1) taps1) [0..<length (replicate 256 (1::real)) + 466])"
    using t1 by (simp add: band_signal_def)
  have c2: "convolve (replicate 256 1) taps2 =
        Inr (map (conv_at (replicate 256 1) taps2) [0..<length (replicate 256 (1::real)) + 466])"
    using t2 by (simp add: band_signal_def)
  have "firwin_bands 467 [1, 30] True 128 = Inr [(0, 1 / 64), (30 / 64, 1)]"
    "firwin_bands 467 [3, 12] True 128 = Inr [(0, 3 / 64), (12 / 64, 1)]"
    "firwin_bands 467 [1, 30] False 128 = Inr [(1 / 64, 30 / 64)]"
    "firwin_bands 467 [3, 12] False 128 = Inr [(3 / 64, 12 / 64)]"
    by (simp_all add: firwin_bands_def)
  moreover have "\<exists>taps1 taps2 bp1 bp2.
      firwin 467 [1, 30] True 128 = Inr taps1 \<and> length taps1 = 467 \<and>
      firwin 467 [3, 12] True 128 = Inr taps2 \<and> length taps2 = 467 \<and>
      band_signal (replicate 256 1) [1, 30] = Inr bp1 \<and>
      convolve (replicate 256 1) taps1 = Inr bp1 \<and> length bp1 = 256 + 466 \<and>
      band_signal (replicate 256 1) [3, 12] = Inr bp2 \<and>
      convolve (replicate 256 1) taps2 = Inr bp2 \<and> length bp2 = 256 + 466"
    apply (rule exI[of _ taps1], rule exI[of _ taps2])
    apply (rule exI[of _ "map (conv_at (replicate 256 1) taps1) [0..<length (replicate 256 (1::real)) + 466]"])
    apply (rule exI[of _ "map (conv_at (replicate 256 1) taps2) [0..<length (replicate 256 (1::real)) + 466]"])
    using t1 t2 c1 c2 by simp
  ultimately show ?thesis
    by (intro conjI)
qed

end
